(* ===== verification/Prelude.thy ===== *)
theory Prelude
  imports Main
begin

text \<open>
  Shared vocabulary of the development: the JavaScript values that block attributes
  hold, the JavaScript built-ins the compiler relies on (\<open>Number.prototype.toString\<close>
  on integers, \<open>Array.prototype.join\<close>, assignment to the last element of an array),
  the decimal reading of digit strings that inverts \<open>toString\<close>, and the lemma
  collections the component theories extend.
\<close>

named_theorems js_simps "evaluation rules for the modelled JavaScript built-ins"
named_theorems path_simps "rules about step paths and their string keys"

section \<open>JavaScript values\<close>

text \<open>
  The values an attribute map can hold after \<open>setAttribute\<close> (a JSON deep copy):
  \<open>undefined\<close> stands for an absent key, numbers are the integers the editor stores.
\<close>

datatype jsval = JUndefined | JNull | JBool bool | JNum int | JStr string

section \<open>Decimal rendering of integers\<close>

definition digit_chars :: string where
  "digit_chars = ''0123456789''"

fun nat_str :: "nat \<Rightarrow> string" where
  "nat_str n =
     (if n < 10 then [digit_chars ! n]
      else nat_str (n div 10) @ [digit_chars ! (n mod 10)])"

declare nat_str.simps [simp del]

definition int_str :: "int \<Rightarrow> string" where
  "int_str i = (if i < 0 then CHR ''-'' # nat_str (nat (- i)) else nat_str (nat i))"

definition is_digit :: "char \<Rightarrow> bool" where
  "is_digit c \<longleftrightarrow> 48 \<le> (of_char c :: nat) \<and> (of_char c :: nat) \<le> 57"

definition digit_val :: "char \<Rightarrow> nat" where
  "digit_val c = of_char c - 48"

definition digits_val :: "string \<Rightarrow> nat" where
  "digits_val cs = foldl (\<lambda>acc c. 10 * acc + digit_val c) 0 cs"

section \<open>Arrays\<close>

text \<open>\<open>xs.join(sep)\<close> on an array of strings.\<close>

fun js_join :: "string \<Rightarrow> string list \<Rightarrow> string" where
  "js_join sep [] = []"
| "js_join sep [x] = x"
| "js_join sep (x # y # ys) = x @ sep @ js_join sep (y # ys)"

text \<open>
  \<open>a[a.length - 1] = f(a[a.length - 1])\<close>: on an empty array the assignment writes the
  property \<open>"-1"\<close>, which is no element, so the elements do not change.
\<close>

definition upd_last :: "('a \<Rightarrow> 'a) \<Rightarrow> 'a list \<Rightarrow> 'a list" where
  "upd_last f xs = (if xs = [] then [] else butlast xs @ [f (last xs)])"

text \<open>
  \<open>s.replace(pattern, r)\<close> for a regular expression without the \<open>g\<close> flag that matches
  a literal string: the first occurrence is replaced, none if there is none.
\<close>

fun replace_first :: "string \<Rightarrow> string \<Rightarrow> string \<Rightarrow> string" where
  "replace_first pat r [] = (if pat = [] then r else [])"
| "replace_first pat r (c # cs) =
     (if take (length pat) (c # cs) = pat then r @ drop (length pat) (c # cs)
      else c # replace_first pat r cs)"

section \<open>Objects with string keys\<close>

text \<open>
  A JavaScript object whose keys are not array indices, as an association list in
  property order: \<open>o[k] = v\<close> replaces the value of an existing key in place and appends a
  new key at the end; \<open>delete o[k]\<close> removes the key.
\<close>

fun aupd :: "'k \<Rightarrow> 'v \<Rightarrow> ('k \<times> 'v) list \<Rightarrow> ('k \<times> 'v) list" where
  "aupd k v [] = [(k, v)]"
| "aupd k v ((k', v') # ps) = (if k' = k then (k, v) # ps else (k', v') # aupd k v ps)"

definition adel :: "'k \<Rightarrow> ('k \<times> 'v) list \<Rightarrow> ('k \<times> 'v) list" where
  "adel k ps = filter (\<lambda>p. fst p \<noteq> k) ps"

text \<open>An object literal \<open>{k1: v1, ..., ...o}\<close> with its properties (spread ones included)
  listed in order: each definition assigns, so a repeated key keeps its first place and its
  last value.\<close>

definition obj_of :: "('k \<times> 'v) list \<Rightarrow> ('k \<times> 'v) list" where
  "obj_of ps = fold (\<lambda>(k, v) acc. aupd k v acc) ps []"

section \<open>Lemmas on the built-ins\<close>

lemma digit_chars_of_char:
  "d < 10 \<Longrightarrow> (of_char (digit_chars ! d) :: nat) = 48 + d"
  by (auto simp: digit_chars_def less_Suc_eq numeral_eq_Suc)

lemma digit_chars_val [simp]:
  assumes "d < 10"
  shows "digit_val (digit_chars ! d) = d" and "is_digit (digit_chars ! d)"
  using digit_chars_of_char [OF assms] assms
  by (simp_all add: digit_val_def is_digit_def)

lemma digits_val_snoc [simp]:
  "digits_val (cs @ [c]) = 10 * digits_val cs + digit_val c"
  by (simp add: digits_val_def)

lemma digits_val_nat_str [js_simps]: "digits_val (nat_str n) = n"
proof (induction n rule: nat_str.induct)
  case (1 n)
  show ?case
  proof (cases "n < 10")
    case True
    then show ?thesis by (simp add: nat_str.simps [of n] digits_val_def)
  next
    case False
    with "1.IH" show ?thesis by (simp add: nat_str.simps [of n])
  qed
qed

lemma nat_str_digits [js_simps]: "c \<in> set (nat_str n) \<Longrightarrow> is_digit c"
proof (induction n rule: nat_str.induct)
  case (1 n)
  then show ?case
    by (cases "n < 10") (auto simp: nat_str.simps [of n])
qed

lemma nat_str_nonempty [js_simps]: "nat_str n \<noteq> []"
  by (simp add: nat_str.simps [of n])

lemma nat_str_inj: "nat_str m = nat_str n \<Longrightarrow> m = n"
  by (metis digits_val_nat_str)

lemma int_str_nonempty [js_simps]: "int_str i \<noteq> []"
  by (simp add: int_str_def nat_str_nonempty)

lemma js_join_append_sep:
  "xs \<noteq> [] \<Longrightarrow> js_join sep (xs @ [y]) = js_join sep xs @ sep @ y"
proof (induction sep xs rule: js_join.induct)
  case (3 sep x z zs)
  then show ?case by simp
qed simp_all

lemma upd_last_Cons [simp]:
  "upd_last f (x # xs) = (if xs = [] then [f x] else x # upd_last f xs)"
  by (simp add: upd_last_def)

lemma upd_last_Nil [simp]: "upd_last f [] = []"
  by (simp add: upd_last_def)

lemma upd_last_snoc [simp]: "upd_last f (xs @ [x]) = xs @ [f x]"
  by (simp add: upd_last_def)

lemma length_upd_last [simp]: "length (upd_last f xs) = length xs"
  by (simp add: upd_last_def)

lemma upd_last_upd_last [simp]: "upd_last f (upd_last g xs) = upd_last (f \<circ> g) xs"
  by (simp add: upd_last_def)

lemma upd_last_id [simp]: "upd_last (\<lambda>x. x) xs = xs"
  by (simp add: upd_last_def)

lemma upd_last_ident: "(\<And>x. f x = x) \<Longrightarrow> upd_last f xs = xs"
  by (simp add: upd_last_def)

lemma butlast_upd_last [simp]: "butlast (upd_last f xs) = butlast xs"
  by (simp add: upd_last_def)

lemma upd_last_eq_Nil [simp]: "upd_last f xs = [] \<longleftrightarrow> xs = []"
  by (simp add: upd_last_def)


lemma map_of_aupd [simp]: "map_of (aupd k v ps) = (map_of ps)(k \<mapsto> v)"
  by (induction ps) (auto simp: fun_eq_iff)

lemma keys_aupd [simp]: "fst ` set (aupd k v ps) = insert k (fst ` set ps)"
proof (induction ps)
  case (Cons p ps)
  then show ?case by (cases p) auto
qed simp

lemma distinct_aupd [simp]: "distinct (map fst (aupd k v ps)) = distinct (map fst ps)"
proof (induction ps)
  case (Cons p ps)
  then show ?case by (cases p) auto
qed simp

lemma map_of_adel [simp]: "map_of (adel k ps) = (map_of ps)(k := None)"
  by (induction ps) (auto simp: adel_def fun_eq_iff)

lemma keys_adel [simp]: "fst ` set (adel k ps) = fst ` set ps - {k}"
  by (auto simp: adel_def)

lemma distinct_adel [simp]: "distinct (map fst ps) \<Longrightarrow> distinct (map fst (adel k ps))"
  by (simp add: adel_def distinct_map_filter)

lemma set_aupd: "set (aupd k v ps) \<subseteq> insert (k, v) (set ps)"
proof (induction ps)
  case (Cons p ps)
  then show ?case by (cases p) auto
qed simp


lemma fold_aupd_map_of:
  "map_of (fold (\<lambda>(k, v) acc. aupd k v acc) ps acc) = map_of acc ++ map_of (rev ps)"
proof (induction ps arbitrary: acc)
  case (Cons p ps)
  then show ?case by (cases p) (simp add: map_add_def fun_eq_iff split: option.splits)
qed simp

lemma map_of_obj_of [simp]: "map_of (obj_of ps) = map_of (rev ps)"
  by (simp add: obj_of_def fold_aupd_map_of)

lemma fold_aupd_distinct:
  "distinct (map fst acc) \<Longrightarrow> distinct (map fst (fold (\<lambda>(k, v) acc. aupd k v acc) ps acc))"
proof (induction ps arbitrary: acc)
  case (Cons p ps)
  then show ?case by (cases p) simp
qed simp

lemma distinct_obj_of [simp]: "distinct (map fst (obj_of ps))"
  by (simp add: obj_of_def fold_aupd_distinct)

lemma fold_aupd_id:
  "distinct (map fst ps) \<Longrightarrow> fold (\<lambda>(k, v) acc. aupd k v acc) ps acc = acc @ ps"
  if "set (map fst ps) \<inter> fst ` set acc = {}"
  using that
proof (induction ps arbitrary: acc)
  case (Cons p ps)
  obtain k v where p: "p = (k, v)" by (cases p) auto
  have "aupd k v acc = acc @ [(k, v)]"
    using Cons.prems(2) p by (induction acc) auto
  then show ?case using Cons p by (simp add: image_iff)
qed simp

lemma obj_of_distinct: "distinct (map fst ps) \<Longrightarrow> obj_of ps = ps"
  using fold_aupd_id [of ps "[]"] by (simp add: obj_of_def)


lemma fold_aupd_set:
  "set (fold (\<lambda>(k, v) acc. aupd k v acc) ps acc) \<subseteq> set acc \<union> set ps"
proof (induction ps arbitrary: acc)
  case (Cons p ps)
  obtain k v where p: "p = (k, v)" by (cases p) auto
  have "set (fold (\<lambda>(k, v) acc. aupd k v acc) ps (aupd k v acc)) \<subseteq> set (aupd k v acc) \<union> set ps"
    by (rule Cons.IH)
  then show ?case using set_aupd [of k v acc] p by auto
qed simp

lemma set_obj_of: "set (obj_of ps) \<subseteq> set ps"
  using fold_aupd_set [of ps "[]"] by (simp add: obj_of_def)

lemma fold_aupd_keys:
  "fst ` set (fold (\<lambda>(k, v) acc. aupd k v acc) ps acc) = fst ` set acc \<union> fst ` set ps"
proof (induction ps arbitrary: acc)
  case (Cons p ps)
  then show ?case by (cases p) auto
qed simp

lemma keys_obj_of [simp]: "fst ` set (obj_of ps) = fst ` set ps"
  using fold_aupd_keys [of ps "[]"] by (simp add: obj_of_def)

end
