(* ===== verification/Blocks.thy ===== *)
theory Blocks
  imports Prelude
begin

text \<open>
  The block catalog of \<open>src/src/classes/Block.ts\<close>: the closed set of block classes as a
  datatype (one constructor per class, named as the class), the class hierarchy
  (\<open>static get super\<close>), each class's own attribute schema (\<open>static defaultAttr\<close>),
  its export slots (\<open>getExportVariables\<close>), and the schema-aware rendering of an attribute
  as script text (\<open>parseScriptAttribute\<close>), with its two fatal errors as values of
  \<open>error\<close>. The display labels and descriptions (Chinese text for the editor) are not
  part of the model; export names, which key the alias map, are kept as their UTF-8 bytes.
\<close>

section \<open>Block classes\<close>

datatype kind =
    Block | RootBlock
  | TestBlock | LogBlock | AlertBlock | PromptBlock | ConfirmBlock
  | CalculateNumberBlock | ConcatStringBlock | ReplaceStringBlock
  | CreateNumberBlock | RandomNumberBlock | GetDatetimeBlock
  | IfBlock | IfStringBlock | IfNumberBlock | IfBooleanBlock
  | IfExistBlock | IfContainBlock | IfVisibleBlock
  | ElseBlock | EndIfBlock | LoopBlock | EndLoopBlock | BreakBlock | ContinueBlock | ExitBlock
  | MacroBlock | SmartBlock
  | CreateDataBlock | EditStringDataBlock | EditNumberDataBlock | EditBooleanDataBlock
  | CreateListBlock | SetListByPushBlock | TakeListByPopBlock | TakeListByIndexBlock
  | SetListByIndexBlock | GetListByIndexBlock | SaveDataBlock | SaveListBlock
  | GetElementListByTypeFromDocumentBlock | GetElementContentBlock | HideElementBlock
  | ShowElementBlock | SetElementOpacityBlock | SetElementContentBlock
  | SetElementPasswordBlock | RemoveElementBlock | GetElementByCaptureBlockFromDocument
  | ClickElementBlock | OpenUrlBlock | CloseTabBlock | ScriptFocusBlock | GetUrlBlock
  | GetTitleBlock | ForwardBlock | BackBlock | WaitBlock

text \<open>\<open>static get super\<close>: the class a class extends (\<open>None\<close> for \<open>Block\<close>).\<close>

fun super_kind :: "kind \<Rightarrow> kind option" where
  "super_kind Block = None"
| "super_kind IfStringBlock = Some IfBlock"
| "super_kind IfNumberBlock = Some IfBlock"
| "super_kind IfBooleanBlock = Some IfBlock"
| "super_kind IfExistBlock = Some IfBlock"
| "super_kind IfContainBlock = Some IfBlock"
| "super_kind IfVisibleBlock = Some IfBlock"
| "super_kind k = Some Block"

text \<open>\<open>x instanceof IfBlock\<close> and \<open>x instanceof LoopBlock\<close>.\<close>

definition is_if :: "kind \<Rightarrow> bool" where
  "is_if k \<longleftrightarrow> k = IfBlock \<or> super_kind k = Some IfBlock"

definition is_loop :: "kind \<Rightarrow> bool" where
  "is_loop k \<longleftrightarrow> k = LoopBlock"

section \<open>Attribute schemas\<close>

datatype attr_type = TEnum | TString | TNumber | TBoolean | TVariable

text \<open>
  Enum options are either a literal list or, for \<open>MacroBlock\<close>, an asynchronous producer
  reading the stored macro list; only the option values are modelled.
\<close>

datatype enum_options = Options "jsval list" | StoredList string | NoOptions

record attr_desc =
  atype :: attr_type
  default_value :: jsval
  required :: bool
  options :: enum_options

type_synonym schema = "(string \<times> attr_desc) list"

abbreviation str_attr :: "string \<Rightarrow> bool \<Rightarrow> attr_desc" where
  "str_attr d r \<equiv> \<lparr>atype = TString, default_value = JStr d, required = r, options = NoOptions\<rparr>"

abbreviation num_attr :: "int \<Rightarrow> bool \<Rightarrow> attr_desc" where
  "num_attr d r \<equiv> \<lparr>atype = TNumber, default_value = JNum d, required = r, options = NoOptions\<rparr>"

abbreviation bool_attr :: "bool \<Rightarrow> bool \<Rightarrow> attr_desc" where
  "bool_attr d r \<equiv> \<lparr>atype = TBoolean, default_value = JBool d, required = r, options = NoOptions\<rparr>"

abbreviation enum_attr :: "jsval list \<Rightarrow> jsval \<Rightarrow> attr_desc" where
  "enum_attr os d \<equiv> \<lparr>atype = TEnum, default_value = d, required = True, options = Options os\<rparr>"

abbreviation var_attr :: "bool \<Rightarrow> attr_desc" where
  "var_attr r \<equiv> \<lparr>atype = TVariable, default_value = JNull, required = r, options = NoOptions\<rparr>"

definition NumberOperateOptions :: "jsval list" where
  "NumberOperateOptions = map JStr [''+'', ''-'', ''*'', ''/'']"

definition NumberCompareOptions :: "jsval list" where
  "NumberCompareOptions = map JStr [''=='', ''!='', ''>'', ''>='', ''<'', ''<='']"

definition BooleanCompareOptions :: "jsval list" where
  "BooleanCompareOptions = map JStr [''=='', ''!='']"

definition StringCompareOptions :: "jsval list" where
  "StringCompareOptions = map JStr [''=='', ''!='']"

definition VariableTypeOptions :: "jsval list" where
  "VariableTypeOptions = map JStr [''number'', ''string'', ''boolean'', ''data'', ''list'', ''Element'']"

definition BaseElementSelectorOptions :: "jsval list" where
  "BaseElementSelectorOptions = map JStr
     [''*'', ''input[type=text]'', ''input[type=number]'', ''input[type=password]'',
      ''input[type=email]'', ''input[type=date]'', ''input[type=time]'',
      ''input[type=datetime-local]'',
      ''input[type=submit],input[type=button],input[type=reset],button'', ''a'', ''img'',
      ''video'', ''audio'', ''select'', ''input[type=checkbox]'', ''input[type=radio]'',
      ''input[type=file]'', ''input[type=hidden]'', ''textarea'', ''table'', ''form'',
      ''h1,h2,h3,h4,h5,h6'', ''p'', ''ul,ol,li'', ''tr'', ''td,th'']"

text \<open>
  \<open>static defaultAttr\<close> as each class declares it, in declaration order; \<open>None\<close> for a
  class that declares none and so inherits its superclass's static field.
\<close>

definition TestBlock_defaultAttr :: schema where
  "TestBlock_defaultAttr =
     [(''text'', str_attr ''Test Text'' True)]"

definition LogBlock_defaultAttr :: schema where
  "LogBlock_defaultAttr =
     [(''level'', enum_attr (map JStr [''log'', ''info'', ''warn'', ''error'']) (JStr ''log'')),
           (''text'', str_attr '''' False)]"

definition AlertBlock_defaultAttr :: schema where
  "AlertBlock_defaultAttr =
     [(''text'', str_attr '''' False)]"

definition PromptBlock_defaultAttr :: schema where
  "PromptBlock_defaultAttr =
     [(''text'', str_attr '''' False), (''default'', str_attr '''' False)]"

definition ConfirmBlock_defaultAttr :: schema where
  "ConfirmBlock_defaultAttr =
     [(''text'', str_attr '''' False)]"

definition CalculateNumberBlock_defaultAttr :: schema where
  "CalculateNumberBlock_defaultAttr =
     [(''number1'', num_attr 0 True),
           (''operator'', enum_attr NumberOperateOptions (JStr ''+'')),
           (''number2'', num_attr 0 True)]"

definition ConcatStringBlock_defaultAttr :: schema where
  "ConcatStringBlock_defaultAttr =
     [(''string1'', str_attr '''' True), (''string2'', str_attr '''' True),
           (''string3'', str_attr '''' False), (''string4'', str_attr '''' False),
           (''string5'', str_attr '''' False), (''separator'', str_attr '''' False)]"

definition ReplaceStringBlock_defaultAttr :: schema where
  "ReplaceStringBlock_defaultAttr =
     [(''target'', var_attr True), (''search'', str_attr '''' True),
           (''replace'', str_attr '''' True)]"

definition CreateNumberBlock_defaultAttr :: schema where
  "CreateNumberBlock_defaultAttr =
     [(''number'', num_attr 0 False)]"

definition RandomNumberBlock_defaultAttr :: schema where
  "RandomNumberBlock_defaultAttr =
     [(''min'', num_attr 0 False), (''max'', num_attr 100 False)]"

definition GetDatetimeBlock_defaultAttr :: schema where
  "GetDatetimeBlock_defaultAttr =
     [(''type'', enum_attr (map JStr [''date'', ''time'', ''datetime'']) JNull),
           (''format'', enum_attr (map JStr [''12hour'', ''24hour'']) (JStr ''24hour''))]"

definition IfStringBlock_defaultAttr :: schema where
  "IfStringBlock_defaultAttr =
     [(''string1'', str_attr '''' True),
           (''condition'', enum_attr StringCompareOptions (JStr ''=='')),
           (''string2'', str_attr '''' False)]"

definition IfNumberBlock_defaultAttr :: schema where
  "IfNumberBlock_defaultAttr =
     [(''number1'', num_attr 0 True),
           (''condition'', enum_attr NumberCompareOptions (JStr ''=='')),
           (''number2'', num_attr 0 False)]"

definition IfBooleanBlock_defaultAttr :: schema where
  "IfBooleanBlock_defaultAttr =
     [(''boolean1'', bool_attr True True),
           (''condition'', enum_attr BooleanCompareOptions (JStr ''=='')),
           (''boolean2'', bool_attr False True)]"

definition IfExistBlock_defaultAttr :: schema where
  "IfExistBlock_defaultAttr =
     [(''variable'', var_attr True),
           (''condition'', enum_attr [JBool True, JBool False] (JBool True))]"

definition IfContainBlock_defaultAttr :: schema where
  "IfContainBlock_defaultAttr =
     [(''string'', str_attr '''' True), (''search'', str_attr '''' True)]"

definition IfVisibleBlock_defaultAttr :: schema where
  "IfVisibleBlock_defaultAttr =
     [(''element'', var_attr True),
           (''condition'', enum_attr [JBool True, JBool False] (JBool True))]"

definition MacroBlock_defaultAttr :: schema where
  "MacroBlock_defaultAttr =
     [(''macroId'', \<lparr>atype = TEnum, default_value = JNull, required = True,
                           options = StoredList ''Macro.List''\<rparr>)]"

definition SmartBlock_defaultAttr :: schema where
  "SmartBlock_defaultAttr =
     [(''smartId'', \<lparr>atype = TEnum, default_value = JNull, required = True,
                           options = StoredList ''Smart.List''\<rparr>),
           (''smartInputValue'', var_attr False)]"

definition EditStringDataBlock_defaultAttr :: schema where
  "EditStringDataBlock_defaultAttr =
     [(''data'', var_attr True), (''key'', str_attr '''' True), (''value'', str_attr '''' False)]"

definition EditNumberDataBlock_defaultAttr :: schema where
  "EditNumberDataBlock_defaultAttr =
     [(''data'', var_attr True), (''key'', str_attr '''' True), (''value'', num_attr 0 True)]"

definition EditBooleanDataBlock_defaultAttr :: schema where
  "EditBooleanDataBlock_defaultAttr =
     [(''data'', var_attr True), (''key'', str_attr '''' True), (''value'', bool_attr False False)]"

definition SetListByPushBlock_defaultAttr :: schema where
  "SetListByPushBlock_defaultAttr = [(''data'', var_attr True), (''value'', var_attr True)]"

definition TakeListByPopBlock_defaultAttr :: schema where
  "TakeListByPopBlock_defaultAttr =
     [(''data'', var_attr True), (''type'', enum_attr VariableTypeOptions (JStr ''string''))]"

definition TakeListByIndexBlock_defaultAttr :: schema where
  "TakeListByIndexBlock_defaultAttr =
     [(''data'', var_attr True), (''index'', num_attr 1 True),
           (''type'', enum_attr VariableTypeOptions (JStr ''string''))]"

definition SetListByIndexBlock_defaultAttr :: schema where
  "SetListByIndexBlock_defaultAttr =
     [(''data'', var_attr True), (''index'', num_attr 1 True), (''value'', var_attr True)]"

definition GetListByIndexBlock_defaultAttr :: schema where
  "GetListByIndexBlock_defaultAttr =
     [(''data'', var_attr True), (''index'', num_attr 1 True),
           (''type'', enum_attr VariableTypeOptions (JStr ''string''))]"

definition SaveDataBlock_defaultAttr :: schema where
  "SaveDataBlock_defaultAttr = [(''name'', str_attr '''' True), (''data'', var_attr True)]"

definition SaveListBlock_defaultAttr :: schema where
  "SaveListBlock_defaultAttr = [(''name'', str_attr '''' True), (''data'', var_attr True)]"

definition GetElementListByTypeFromDocumentBlock_defaultAttr :: schema where
  "GetElementListByTypeFromDocumentBlock_defaultAttr =
     [(''type'', enum_attr BaseElementSelectorOptions (JStr ''*''))]"

definition GetElementContentBlock_defaultAttr :: schema where
  "GetElementContentBlock_defaultAttr = [(''element'', var_attr True)]"

definition HideElementBlock_defaultAttr :: schema where
  "HideElementBlock_defaultAttr = [(''element'', var_attr True)]"

definition ShowElementBlock_defaultAttr :: schema where
  "ShowElementBlock_defaultAttr = [(''element'', var_attr True)]"

definition SetElementOpacityBlock_defaultAttr :: schema where
  "SetElementOpacityBlock_defaultAttr = [(''element'', var_attr True), (''opacity'', num_attr 100 True)]"

definition SetElementContentBlock_defaultAttr :: schema where
  "SetElementContentBlock_defaultAttr = [(''element'', var_attr True), (''text'', str_attr '''' False)]"

definition SetElementPasswordBlock_defaultAttr :: schema where
  "SetElementPasswordBlock_defaultAttr =
     [(''element'', var_attr True), (''password'', str_attr '''' False)]"

definition RemoveElementBlock_defaultAttr :: schema where
  "RemoveElementBlock_defaultAttr = [(''element'', var_attr True)]"

definition GetElementByCaptureBlockFromDocument_defaultAttr :: schema where
  "GetElementByCaptureBlockFromDocument_defaultAttr =
     [(''elementId'', \<lparr>atype = TEnum, default_value = JNull, required = True,
                             options = StoredList ''Element.List''\<rparr>)]"

definition ClickElementBlock_defaultAttr :: schema where
  "ClickElementBlock_defaultAttr = [(''element'', var_attr True)]"

definition OpenUrlBlock_defaultAttr :: schema where
  "OpenUrlBlock_defaultAttr =
     [(''url'', str_attr '''' True),
           (''position'', enum_attr (map JStr [''newTab'', ''currentTab'', ''newWindow'']) (JStr ''newTab''))]"

definition WaitBlock_defaultAttr :: schema where
  "WaitBlock_defaultAttr = [(''time'', num_attr 1000 True)]"

fun own_defaultAttr :: "kind \<Rightarrow> schema option" where
  "own_defaultAttr Block = Some []"
| "own_defaultAttr TestBlock = Some TestBlock_defaultAttr"
| "own_defaultAttr LogBlock = Some LogBlock_defaultAttr"
| "own_defaultAttr AlertBlock = Some AlertBlock_defaultAttr"
| "own_defaultAttr PromptBlock = Some PromptBlock_defaultAttr"
| "own_defaultAttr ConfirmBlock = Some ConfirmBlock_defaultAttr"
| "own_defaultAttr CalculateNumberBlock = Some CalculateNumberBlock_defaultAttr"
| "own_defaultAttr ConcatStringBlock = Some ConcatStringBlock_defaultAttr"
| "own_defaultAttr ReplaceStringBlock = Some ReplaceStringBlock_defaultAttr"
| "own_defaultAttr CreateNumberBlock = Some CreateNumberBlock_defaultAttr"
| "own_defaultAttr RandomNumberBlock = Some RandomNumberBlock_defaultAttr"
| "own_defaultAttr GetDatetimeBlock = Some GetDatetimeBlock_defaultAttr"
| "own_defaultAttr IfStringBlock = Some IfStringBlock_defaultAttr"
| "own_defaultAttr IfNumberBlock = Some IfNumberBlock_defaultAttr"
| "own_defaultAttr IfBooleanBlock = Some IfBooleanBlock_defaultAttr"
| "own_defaultAttr IfExistBlock = Some IfExistBlock_defaultAttr"
| "own_defaultAttr IfContainBlock = Some IfContainBlock_defaultAttr"
| "own_defaultAttr IfVisibleBlock = Some IfVisibleBlock_defaultAttr"
| "own_defaultAttr MacroBlock = Some MacroBlock_defaultAttr"
| "own_defaultAttr SmartBlock = Some SmartBlock_defaultAttr"
| "own_defaultAttr EditStringDataBlock = Some EditStringDataBlock_defaultAttr"
| "own_defaultAttr EditNumberDataBlock = Some EditNumberDataBlock_defaultAttr"
| "own_defaultAttr EditBooleanDataBlock = Some EditBooleanDataBlock_defaultAttr"
| "own_defaultAttr SetListByPushBlock = Some SetListByPushBlock_defaultAttr"
| "own_defaultAttr TakeListByPopBlock = Some TakeListByPopBlock_defaultAttr"
| "own_defaultAttr TakeListByIndexBlock = Some TakeListByIndexBlock_defaultAttr"
| "own_defaultAttr SetListByIndexBlock = Some SetListByIndexBlock_defaultAttr"
| "own_defaultAttr GetListByIndexBlock = Some GetListByIndexBlock_defaultAttr"
| "own_defaultAttr SaveDataBlock = Some SaveDataBlock_defaultAttr"
| "own_defaultAttr SaveListBlock = Some SaveListBlock_defaultAttr"
| "own_defaultAttr GetElementListByTypeFromDocumentBlock = Some GetElementListByTypeFromDocumentBlock_defaultAttr"
| "own_defaultAttr GetElementContentBlock = Some GetElementContentBlock_defaultAttr"
| "own_defaultAttr HideElementBlock = Some HideElementBlock_defaultAttr"
| "own_defaultAttr ShowElementBlock = Some ShowElementBlock_defaultAttr"
| "own_defaultAttr SetElementOpacityBlock = Some SetElementOpacityBlock_defaultAttr"
| "own_defaultAttr SetElementContentBlock = Some SetElementContentBlock_defaultAttr"
| "own_defaultAttr SetElementPasswordBlock = Some SetElementPasswordBlock_defaultAttr"
| "own_defaultAttr RemoveElementBlock = Some RemoveElementBlock_defaultAttr"
| "own_defaultAttr GetElementByCaptureBlockFromDocument = Some GetElementByCaptureBlockFromDocument_defaultAttr"
| "own_defaultAttr ClickElementBlock = Some ClickElementBlock_defaultAttr"
| "own_defaultAttr OpenUrlBlock = Some OpenUrlBlock_defaultAttr"
| "own_defaultAttr WaitBlock = Some WaitBlock_defaultAttr"
| "own_defaultAttr k = None"

text \<open>
  The static field as a class sees it (\<open>this.prototype.defaultAttr\<close>): its own
  declaration, else its superclass's. The hierarchy has depth at most two below
  \<open>Block\<close>, which declares the empty schema.
\<close>

definition defaultAttr :: "kind \<Rightarrow> schema" where
  "defaultAttr k =
     (case own_defaultAttr k of
        Some s \<Rightarrow> s
      | None \<Rightarrow> (case super_kind k of
                   None \<Rightarrow> []
                 | Some p \<Rightarrow> (case own_defaultAttr p of Some s \<Rightarrow> s | None \<Rightarrow> [])))"

section \<open>Export slots\<close>

record export_slot =
  ex_inner :: string
  ex_name :: string

text \<open>Export names as the UTF-8 bytes of the source's Chinese names.\<close>

definition name_result :: string where
  "name_result = [CHR 0xE7, CHR 0xBB, CHR 0x93, CHR 0xE6, CHR 0x9E, CHR 0x9C]"

definition name_answer :: string where
  "name_answer = [CHR 0xE7, CHR 0xAD, CHR 0x94, CHR 0xE6, CHR 0xA1, CHR 0x88]"

definition name_confirm :: string where
  "name_confirm = [CHR 0xE7, CHR 0xA1, CHR 0xAE, CHR 0xE8, CHR 0xAE, CHR 0xA4]"

definition name_test_text :: string where
  "name_test_text = [CHR 0xE6, CHR 0xB5, CHR 0x8B, CHR 0xE8, CHR 0xAF, CHR 0x95,
                     CHR 0xE6, CHR 0x96, CHR 0x87, CHR 0xE6, CHR 0x9C, CHR 0xAC]"

definition name_return :: string where
  "name_return = [CHR 0xE8, CHR 0xBF, CHR 0x94, CHR 0xE5, CHR 0x9B, CHR 0x9E, CHR 0xE5, CHR 0x80, CHR 0xBC]"

definition name_data :: string where
  "name_data = [CHR 0xE6, CHR 0x95, CHR 0xB0, CHR 0xE6, CHR 0x8D, CHR 0xAE]"

definition name_list :: string where
  "name_list = [CHR 0xE9, CHR 0x9B, CHR 0x86, CHR 0xE5, CHR 0x90, CHR 0x88]"

definition name_elements :: string where
  "name_elements = [CHR 0xE5, CHR 0x85, CHR 0x83, CHR 0xE7, CHR 0xB4, CHR 0xA0,
                    CHR 0xE9, CHR 0x9B, CHR 0x86, CHR 0xE5, CHR 0x90, CHR 0x88]"

definition name_text :: string where
  "name_text = [CHR 0xE6, CHR 0x96, CHR 0x87, CHR 0xE6, CHR 0x9C, CHR 0xAC]"

definition name_element :: string where
  "name_element = [CHR 0xE5, CHR 0x85, CHR 0x83, CHR 0xE7, CHR 0xB4, CHR 0xA0]"

definition name_url :: string where
  "name_url = [CHR 0xE7, CHR 0xBD, CHR 0x91, CHR 0xE5, CHR 0x9D, CHR 0x80]"

definition name_title :: string where
  "name_title = [CHR 0xE6, CHR 0xA0, CHR 0x87, CHR 0xE9, CHR 0xA2, CHR 0x98]"

definition TestBlock_exports :: "export_slot list" where
  "TestBlock_exports = [\<lparr>ex_inner = ''_text'', ex_name = name_test_text\<rparr>]"

definition PromptBlock_exports :: "export_slot list" where
  "PromptBlock_exports = [\<lparr>ex_inner = ''_answer'', ex_name = name_answer\<rparr>]"

definition ConfirmBlock_exports :: "export_slot list" where
  "ConfirmBlock_exports = [\<lparr>ex_inner = ''_isConfirmed'', ex_name = name_confirm\<rparr>]"

definition CalculateNumberBlock_exports :: "export_slot list" where
  "CalculateNumberBlock_exports = [\<lparr>ex_inner = ''_result'', ex_name = name_result\<rparr>]"

definition ConcatStringBlock_exports :: "export_slot list" where
  "ConcatStringBlock_exports = [\<lparr>ex_inner = ''_result'', ex_name = name_result\<rparr>]"

definition ReplaceStringBlock_exports :: "export_slot list" where
  "ReplaceStringBlock_exports = [\<lparr>ex_inner = ''_result'', ex_name = name_result\<rparr>]"

definition CreateNumberBlock_exports :: "export_slot list" where
  "CreateNumberBlock_exports = [\<lparr>ex_inner = ''_result'', ex_name = name_result\<rparr>]"

definition RandomNumberBlock_exports :: "export_slot list" where
  "RandomNumberBlock_exports = [\<lparr>ex_inner = ''_result'', ex_name = name_result\<rparr>]"

definition GetDatetimeBlock_exports :: "export_slot list" where
  "GetDatetimeBlock_exports = [\<lparr>ex_inner = ''_result'', ex_name = name_result\<rparr>]"

definition SmartBlock_exports :: "export_slot list" where
  "SmartBlock_exports = [\<lparr>ex_inner = ''_smartOutputValue'', ex_name = name_return\<rparr>]"

definition CreateDataBlock_exports :: "export_slot list" where
  "CreateDataBlock_exports = [\<lparr>ex_inner = ''_data'', ex_name = name_data\<rparr>]"

definition CreateListBlock_exports :: "export_slot list" where
  "CreateListBlock_exports = [\<lparr>ex_inner = ''_list'', ex_name = name_list\<rparr>]"

definition TakeListByPopBlock_exports :: "export_slot list" where
  "TakeListByPopBlock_exports = [\<lparr>ex_inner = ''_data'', ex_name = name_data\<rparr>]"

definition TakeListByIndexBlock_exports :: "export_slot list" where
  "TakeListByIndexBlock_exports = [\<lparr>ex_inner = ''_data'', ex_name = name_data\<rparr>]"

definition GetListByIndexBlock_exports :: "export_slot list" where
  "GetListByIndexBlock_exports = [\<lparr>ex_inner = ''_data'', ex_name = name_data\<rparr>]"

definition GetElementListByTypeFromDocumentBlock_exports :: "export_slot list" where
  "GetElementListByTypeFromDocumentBlock_exports = [\<lparr>ex_inner = ''_elements'', ex_name = name_elements\<rparr>]"

definition GetElementContentBlock_exports :: "export_slot list" where
  "GetElementContentBlock_exports = [\<lparr>ex_inner = ''_text'', ex_name = name_text\<rparr>]"

definition GetElementByCaptureBlockFromDocument_exports :: "export_slot list" where
  "GetElementByCaptureBlockFromDocument_exports = [\<lparr>ex_inner = ''_element'', ex_name = name_element\<rparr>]"

definition GetUrlBlock_exports :: "export_slot list" where
  "GetUrlBlock_exports = [\<lparr>ex_inner = ''_url'', ex_name = name_url\<rparr>]"

definition GetTitleBlock_exports :: "export_slot list" where
  "GetTitleBlock_exports = [\<lparr>ex_inner = ''_title'', ex_name = name_title\<rparr>]"

fun export_slots :: "kind \<Rightarrow> export_slot list" where
  "export_slots TestBlock = TestBlock_exports"
| "export_slots PromptBlock = PromptBlock_exports"
| "export_slots ConfirmBlock = ConfirmBlock_exports"
| "export_slots CalculateNumberBlock = CalculateNumberBlock_exports"
| "export_slots ConcatStringBlock = ConcatStringBlock_exports"
| "export_slots ReplaceStringBlock = ReplaceStringBlock_exports"
| "export_slots CreateNumberBlock = CreateNumberBlock_exports"
| "export_slots RandomNumberBlock = RandomNumberBlock_exports"
| "export_slots GetDatetimeBlock = GetDatetimeBlock_exports"
| "export_slots SmartBlock = SmartBlock_exports"
| "export_slots CreateDataBlock = CreateDataBlock_exports"
| "export_slots CreateListBlock = CreateListBlock_exports"
| "export_slots TakeListByPopBlock = TakeListByPopBlock_exports"
| "export_slots TakeListByIndexBlock = TakeListByIndexBlock_exports"
| "export_slots GetListByIndexBlock = GetListByIndexBlock_exports"
| "export_slots GetElementListByTypeFromDocumentBlock = GetElementListByTypeFromDocumentBlock_exports"
| "export_slots GetElementContentBlock = GetElementContentBlock_exports"
| "export_slots GetElementByCaptureBlockFromDocument = GetElementByCaptureBlockFromDocument_exports"
| "export_slots GetUrlBlock = GetUrlBlock_exports"
| "export_slots GetTitleBlock = GetTitleBlock_exports"
| "export_slots k = []"

section \<open>Rendering an attribute as script text\<close>

datatype error =
    UnknownAttribute string
  | UnknownAttributeType
  | ConditionRequired

text \<open>\<open>String(v)\<close>, as a template literal interpolates a value.\<close>

fun js_str :: "jsval \<Rightarrow> string" where
  "js_str JUndefined = ''undefined''"
| "js_str JNull = ''null''"
| "js_str (JBool b) = (if b then ''true'' else ''false'')"
| "js_str (JNum i) = int_str i"
| "js_str (JStr s) = s"

text \<open>JavaScript truthiness of a value.\<close>

fun js_truthy :: "jsval \<Rightarrow> bool" where
  "js_truthy JUndefined = False"
| "js_truthy JNull = False"
| "js_truthy (JBool b) = b"
| "js_truthy (JNum i) = (i \<noteq> 0)"
| "js_truthy (JStr s) = (s \<noteq> [])"

text \<open>
  \<open>escapeStringValue\<close> of \<open>modules/strings\<close> (outside the sources): escapes the
  backslash, the single quote and line breaks, so the result can sit between single quotes.
\<close>

fun escapeStringValue :: "string \<Rightarrow> string" where
  "escapeStringValue [] = []"
| "escapeStringValue (c # cs) =
     (if c = CHR 0x5C then [CHR 0x5C, CHR 0x5C]
      else if c = CHR 0x27 then [CHR 0x5C, CHR 0x27]
      else if c = CHR 0x0A then [CHR 0x5C, CHR ''n'']
      else if c = CHR 0x0D then [CHR 0x5C, CHR ''r'']
      else [c]) @ escapeStringValue cs"

text \<open>\<open>this._attr[key]\<close>: a key absent from the attribute map reads \<open>undefined\<close>.\<close>

definition get_attr :: "(string \<times> jsval) list \<Rightarrow> string \<Rightarrow> jsval" where
  "get_attr attrs key = (case map_of attrs key of Some v \<Rightarrow> v | None \<Rightarrow> JUndefined)"

text \<open>
  \<open>parseScriptAttribute(key)\<close>. The schema is the class's \<open>defaultAttr\<close>; \<open>agent\<close>
  lists the keys that \<open>data.variableAgent\<close> flags. An enum returns its raw value (the
  caller interpolates it or tests its truthiness); every other branch returns text.
\<close>

definition parseScriptAttribute ::
  "schema \<Rightarrow> (string \<times> jsval) list \<Rightarrow> string list \<Rightarrow> string \<Rightarrow> error + jsval" where
  "parseScriptAttribute sch attrs agent key =
     (let value = get_attr attrs key in
      case map_of sch key of
        None \<Rightarrow> Inl (UnknownAttribute key)
      | Some d \<Rightarrow>
          (if key \<in> set agent \<or> atype d = TVariable then Inr (JStr (''__VAR__.'' @ js_str value))
           else (case atype d of
                   TEnum \<Rightarrow> Inr value
                 | TString \<Rightarrow> Inr (JStr ([CHR 0x27] @ escapeStringValue (js_str value) @ [CHR 0x27]))
                 | TNumber \<Rightarrow> Inr (JStr (if value = JNull \<or> value = JUndefined then ''null''
                                          else js_str value))
                 | TBoolean \<Rightarrow> Inr (JStr (if value = JNull \<or> value = JUndefined then ''null''
                                           else js_str value))
                 | TVariable \<Rightarrow> Inl UnknownAttributeType)))"

text \<open>Several attributes read in order; the first failure propagates, as a throw would.\<close>

fun parse_attrs ::
  "schema \<Rightarrow> (string \<times> jsval) list \<Rightarrow> string list \<Rightarrow> string list \<Rightarrow> error + jsval list" where
  "parse_attrs sch attrs agent [] = Inr []"
| "parse_attrs sch attrs agent (k # ks) =
     (case parseScriptAttribute sch attrs agent k of
        Inl e \<Rightarrow> Inl e
      | Inr v \<Rightarrow> (case parse_attrs sch attrs agent ks of
                   Inl e \<Rightarrow> Inl e
                 | Inr vs \<Rightarrow> Inr (v # vs)))"

text \<open>
  The declared value types of \<open>DefaultAttrType\<close>: a number attribute holds a number or
  nothing, a boolean attribute a boolean or nothing; string, enum and variable attributes
  are not constrained further. \<open>setAttribute\<close> does not check them.
\<close>

fun value_fits :: "attr_type \<Rightarrow> jsval \<Rightarrow> bool" where
  "value_fits TNumber v = (case v of JNum _ \<Rightarrow> True | JNull \<Rightarrow> True | JUndefined \<Rightarrow> True | _ \<Rightarrow> False)"
| "value_fits TBoolean v = (case v of JBool _ \<Rightarrow> True | JNull \<Rightarrow> True | JUndefined \<Rightarrow> True | _ \<Rightarrow> False)"
| "value_fits t v = True"

definition attrs_typed :: "schema \<Rightarrow> (string \<times> jsval) list \<Rightarrow> bool" where
  "attrs_typed sch attrs \<longleftrightarrow> list_all (\<lambda>(k, d). value_fits (atype d) (get_attr attrs k)) sch"

section \<open>Lemmas\<close>

lemmas schema_defs = defaultAttr_def
  TestBlock_defaultAttr_def LogBlock_defaultAttr_def AlertBlock_defaultAttr_def
  PromptBlock_defaultAttr_def ConfirmBlock_defaultAttr_def CalculateNumberBlock_defaultAttr_def
  ConcatStringBlock_defaultAttr_def ReplaceStringBlock_defaultAttr_def CreateNumberBlock_defaultAttr_def
  RandomNumberBlock_defaultAttr_def GetDatetimeBlock_defaultAttr_def IfStringBlock_defaultAttr_def
  IfNumberBlock_defaultAttr_def IfBooleanBlock_defaultAttr_def IfExistBlock_defaultAttr_def
  IfContainBlock_defaultAttr_def IfVisibleBlock_defaultAttr_def MacroBlock_defaultAttr_def
  SmartBlock_defaultAttr_def EditStringDataBlock_defaultAttr_def EditNumberDataBlock_defaultAttr_def
  EditBooleanDataBlock_defaultAttr_def SetListByPushBlock_defaultAttr_def TakeListByPopBlock_defaultAttr_def
  TakeListByIndexBlock_defaultAttr_def SetListByIndexBlock_defaultAttr_def GetListByIndexBlock_defaultAttr_def
  SaveDataBlock_defaultAttr_def SaveListBlock_defaultAttr_def GetElementListByTypeFromDocumentBlock_defaultAttr_def
  GetElementContentBlock_defaultAttr_def HideElementBlock_defaultAttr_def ShowElementBlock_defaultAttr_def
  SetElementOpacityBlock_defaultAttr_def SetElementContentBlock_defaultAttr_def SetElementPasswordBlock_defaultAttr_def
  RemoveElementBlock_defaultAttr_def GetElementByCaptureBlockFromDocument_defaultAttr_def ClickElementBlock_defaultAttr_def
  OpenUrlBlock_defaultAttr_def WaitBlock_defaultAttr_def

lemma defaultAttr_simps [simp]:
  "own_defaultAttr k = Some s \<Longrightarrow> defaultAttr k = s"
  by (simp add: defaultAttr_def)

lemma is_if_iff [simp]:
  "is_if k \<longleftrightarrow> k \<in> {IfBlock, IfStringBlock, IfNumberBlock, IfBooleanBlock, IfExistBlock,
                      IfContainBlock, IfVisibleBlock}"
  by (cases k) (simp_all add: is_if_def)

lemma is_loop_iff [simp]: "is_loop k \<longleftrightarrow> k = LoopBlock"
  by (simp add: is_loop_def)

lemma parseScriptAttribute_known:
  "map_of sch key \<noteq> None \<Longrightarrow> \<exists>v. parseScriptAttribute sch attrs agent key = Inr v"
  by (auto simp: parseScriptAttribute_def Let_def split: attr_type.splits)

lemma parse_attrs_length:
  "parse_attrs sch attrs agent ks = Inr vs \<Longrightarrow> length vs = length ks"
  by (induction ks arbitrary: vs) (auto split: sum.splits)

lemma parse_attrs_Inr:
  "(\<forall>k \<in> set ks. map_of sch k \<noteq> None) \<Longrightarrow> \<exists>vs. parse_attrs sch attrs agent ks = Inr vs"
proof (induction ks)
  case (Cons k ks)
  then obtain v where "parseScriptAttribute sch attrs agent k = Inr v"
    using parseScriptAttribute_known by (metis list.set_intros(1))
  with Cons show ?case by (auto split: sum.splits)
qed simp

lemma parse_attrs_nth:
  "parse_attrs sch attrs agent ks = Inr vs \<Longrightarrow> j < length ks \<Longrightarrow>
   parseScriptAttribute sch attrs agent (ks ! j) = Inr (vs ! j)"
proof (induction ks arbitrary: vs j)
  case (Cons k ks)
  then show ?case by (cases j) (auto split: sum.splits)
qed simp

text \<open>
  A non-enum attribute whose value fits its declared type renders to non-empty text.
\<close>

lemma parseScriptAttribute_nonempty:
  assumes "parseScriptAttribute sch attrs agent k = Inr v" and "map_of sch k = Some d"
    and "atype d \<noteq> TEnum" and "value_fits (atype d) (get_attr attrs k)"
  shows "js_str v \<noteq> []"
  using assms
  by (cases "atype d"; cases "get_attr attrs k")
     (auto simp: parseScriptAttribute_def Let_def int_str_nonempty split: if_splits)

lemma attrs_typed_key:
  "attrs_typed sch attrs \<Longrightarrow> map_of sch k = Some d \<Longrightarrow> value_fits (atype d) (get_attr attrs k)"
  by (auto simp: attrs_typed_def list_all_iff dest: map_of_SomeD)

end
