(* ===== verification/Bodies.thy ===== *)
theory Bodies
  imports Blocks
begin

text \<open>
  The bodies of the leaf classes of \<open>src/src/classes/Block.ts\<close>: for every class whose
  \<open>packScript\<close> is \<open>Block.packScript\<close>, its \<open>toScript()\<close> as a function of the node, and
  for every conditional subclass of \<open>IfBlock\<close> the condition its \<open>toScript\<close> passes to
  \<open>IfBlock.toScript\<close>. A tree to compile is a \<open>node\<close>: its id, class, attribute map,
  alias map (\<open>_varAlias\<close>), the keys that \<open>data.variableAgent\<close> flags, and its children in
  sibling order. Every attribute is read through \<open>parseScriptAttribute\<close>, so a body fails
  exactly when an attribute read fails; the text is the source's template literal.
\<close>

section \<open>Trees to compile\<close>

datatype node =
  Node (nid: nat) (nkind: kind) (nattrs: "(string \<times> jsval) list")
       (nalias: "(string \<times> string) list") (nagent: "string list") (nchildren: "node list")

definition sbind :: "'e + 'a \<Rightarrow> ('a \<Rightarrow> 'e + 'b) \<Rightarrow> 'e + 'b" where
  "sbind m f = (case m of Inl e \<Rightarrow> Inl e | Inr x \<Rightarrow> f x)"

text \<open>\<open>this.parseScriptAttribute(k)\<close> for the keys \<open>ks\<close>, in order.\<close>

definition with_attrs :: "node \<Rightarrow> string list \<Rightarrow> (jsval list \<Rightarrow> string) \<Rightarrow> error + string" where
  "with_attrs n ks f =
     sbind (parse_attrs (defaultAttr (nkind n)) (nattrs n) (nagent n) ks) (\<lambda>vs. Inr (f vs))"

text \<open>\<open>getVariableAlias(name)\<close>: \<open>this._varAlias[name] ?? ""\<close>.\<close>

definition getVariableAlias :: "node \<Rightarrow> string \<Rightarrow> string" where
  "getVariableAlias n name = (case map_of (nalias n) name of Some a \<Rightarrow> a | None \<Rightarrow> [])"

text \<open>\<open>stepList.join("-")\<close>.\<close>

definition stepKey :: "int list \<Rightarrow> string" where
  "stepKey p = js_join ''-'' (map int_str p)"

section \<open>Leaf bodies\<close>

definition TestBlock_toScript :: "node \<Rightarrow> error + string" where
  "TestBlock_toScript n = with_attrs n [''text'']
     (\<lambda>vs. let text = js_str (vs ! 0) in ''const _text=\"hello\";alert('' @ text @ '');'')"

definition LogBlock_toScript :: "node \<Rightarrow> error + string" where
  "LogBlock_toScript n = with_attrs n [''level'', ''text'']
     (\<lambda>vs. let level = js_str (vs ! 0); text = js_str (vs ! 1)
           in ''await console.'' @ level @ ''('' @ text @ '');'')"

definition AlertBlock_toScript :: "node \<Rightarrow> error + string" where
  "AlertBlock_toScript n = with_attrs n [''text'']
     (\<lambda>vs. let text = js_str (vs ! 0) in ''alert('' @ text @ '');'')"

definition PromptBlock_toScript :: "node \<Rightarrow> error + string" where
  "PromptBlock_toScript n = with_attrs n [''text'', ''default'']
     (\<lambda>vs. let text = js_str (vs ! 0); defaultAnswer = js_str (vs ! 1)
           in ''const _answer=prompt('' @ text @ '','' @ defaultAnswer @ '');'')"

definition ConfirmBlock_toScript :: "node \<Rightarrow> error + string" where
  "ConfirmBlock_toScript n = with_attrs n [''text'']
     (\<lambda>vs. let text = js_str (vs ! 0) in ''const _isConfirmed=!!confirm('' @ text @ '');'')"

definition CalculateNumberBlock_toScript :: "node \<Rightarrow> error + string" where
  "CalculateNumberBlock_toScript n = with_attrs n [''number1'', ''operator'', ''number2'']
     (\<lambda>vs. let number1 = js_str (vs ! 0); operator = js_str (vs ! 1); number2 = js_str (vs ! 2)
           in ''const _result='' @ number1 @ operator @ number2 @ '';'')"

definition ConcatStringBlock_toScript :: "node \<Rightarrow> error + string" where
  "ConcatStringBlock_toScript n =
     with_attrs n [''string1'', ''string2'', ''string3'', ''string4'', ''string5'', ''separator'']
     (\<lambda>vs. ''let _result; _result = ['' @ js_str (vs ! 0) @ '','' @ js_str (vs ! 1) @ '',''
           @ js_str (vs ! 2) @ '','' @ js_str (vs ! 3) @ '','' @ js_str (vs ! 4) @ ''].join(''
           @ js_str (vs ! 5) @ '');'')"

definition ReplaceStringBlock_toScript :: "node \<Rightarrow> error + string" where
  "ReplaceStringBlock_toScript n = with_attrs n [''target'', ''search'', ''replace'']
     (\<lambda>vs. let target = js_str (vs ! 0); search = js_str (vs ! 1); replace = js_str (vs ! 2)
           in ''const _result='' @ target @ ''.replace('' @ search @ '','' @ replace @ '');'')"

definition CreateNumberBlock_toScript :: "node \<Rightarrow> error + string" where
  "CreateNumberBlock_toScript n = with_attrs n [''number'']
     (\<lambda>vs. let number = js_str (vs ! 0) in ''const _result='' @ number @ '';'')"

definition RandomNumberBlock_toScript :: "node \<Rightarrow> error + string" where
  "RandomNumberBlock_toScript n = with_attrs n [''min'', ''max'']
     (\<lambda>vs. let min = js_str (vs ! 0); max = js_str (vs ! 1)
           in ''const _result=Math.floor(Math.random()*('' @ max @ ''-'' @ min @ ''+1)+''
              @ min @ '');'')"

definition MacroBlock_toScript :: "node \<Rightarrow> error + string" where
  "MacroBlock_toScript n = with_attrs n [''macroId'']
     (\<lambda>vs. let macroId = js_str (vs ! 0)
           in ''await __API__.__ExecuteMacro__('' @ [CHR 0x27] @ macroId @ [CHR 0x27] @ '');'')"

definition GetDatetimeBlock_toScript :: "node \<Rightarrow> error + string" where
  "GetDatetimeBlock_toScript n = with_attrs n [''type'', ''format'']
     (\<lambda>vs. let type = vs ! 0; timeFormat = vs ! 1;
               format =
                 (if type = JStr ''date'' then ''{year:'numeric',month:'2-digit',day:'2-digit'}''
                  else if type = JStr ''time''
                  then ''{hour12:false,hour:'2-digit',minute:'2-digit',second:'2-digit'}''
                  else if type = JStr ''datetime''
                  then ''{hour12:false,year:'numeric',month:'2-digit',day:'2-digit',hour:'2-digit',minute:'2-digit',second:'2-digit'}''
                  else []);
               format' = (if timeFormat = JStr ''12hour'' then replace_first ''hour12:false,'' [] format
                          else format)
           in ''const _result=new Date().toLocaleString('zh-CN','' @ format' @ '');'')"

text \<open>
  \<open>SmartBlock.toScript\<close> reads the attribute \<open>smartCode\<close> with \<open>getAttribute\<close>: the key is
  not in the schema, so it is interpolated as stored (\<open>undefined\<close> when absent).
\<close>

definition SmartBlock_toScript :: "node \<Rightarrow> error + string" where
  "SmartBlock_toScript n = with_attrs n [''smartInputValue'']
     (\<lambda>vs. let code = js_str (get_attr (nattrs n) ''smartCode''); inputValue = js_str (vs ! 0)
           in ''const _smartOutputValue = ('' @ code @ '')('' @ inputValue @ '');'')"

definition CreateDataBlock_toScript :: "node \<Rightarrow> error + string" where
  "CreateDataBlock_toScript n = Inr ''const _data={};''"

definition EditStringDataBlock_toScript :: "node \<Rightarrow> error + string" where
  "EditStringDataBlock_toScript n = with_attrs n [''data'', ''key'', ''value'']
     (\<lambda>vs. let data = js_str (vs ! 0); key = js_str (vs ! 1); value = js_str (vs ! 2)
           in data @ ''['' @ key @ '']='' @ value @ '';'')"

definition EditNumberDataBlock_toScript :: "node \<Rightarrow> error + string" where
  "EditNumberDataBlock_toScript n = with_attrs n [''data'', ''key'', ''value'']
     (\<lambda>vs. let data = js_str (vs ! 0); key = js_str (vs ! 1); value = js_str (vs ! 2)
           in data @ ''['' @ key @ '']='' @ value @ '';'')"

definition EditBooleanDataBlock_toScript :: "node \<Rightarrow> error + string" where
  "EditBooleanDataBlock_toScript n = with_attrs n [''data'', ''key'', ''value'']
     (\<lambda>vs. let data = js_str (vs ! 0); key = js_str (vs ! 1); value = js_str (vs ! 2)
           in data @ ''['' @ key @ '']='' @ value @ '';'')"

definition CreateListBlock_toScript :: "node \<Rightarrow> error + string" where
  "CreateListBlock_toScript n = Inr ''const _list=[];''"

definition SetListByPushBlock_toScript :: "node \<Rightarrow> error + string" where
  "SetListByPushBlock_toScript n = with_attrs n [''data'', ''value'']
     (\<lambda>vs. let data = js_str (vs ! 0); value = js_str (vs ! 1)
           in data @ ''.push('' @ value @ '');'')"

definition TakeListByPopBlock_toScript :: "node \<Rightarrow> error + string" where
  "TakeListByPopBlock_toScript n = with_attrs n [''data'']
     (\<lambda>vs. let data = js_str (vs ! 0) in ''const _data='' @ data @ ''.pop();'')"

definition TakeListByIndexBlock_toScript :: "node \<Rightarrow> error + string" where
  "TakeListByIndexBlock_toScript n = with_attrs n [''data'', ''index'']
     (\<lambda>vs. let data = js_str (vs ! 0); index = js_str (vs ! 1)
           in ''const _data='' @ data @ ''.splice('' @ index @ ''-1,1);'')"

definition SetListByIndexBlock_toScript :: "node \<Rightarrow> error + string" where
  "SetListByIndexBlock_toScript n = with_attrs n [''data'', ''index'', ''value'']
     (\<lambda>vs. let data = js_str (vs ! 0); index = js_str (vs ! 1); value = js_str (vs ! 2)
           in data @ ''.splice('' @ index @ ''-1,0,'' @ value @ '');'')"

definition GetListByIndexBlock_toScript :: "node \<Rightarrow> error + string" where
  "GetListByIndexBlock_toScript n = with_attrs n [''data'', ''index'']
     (\<lambda>vs. let data = js_str (vs ! 0); index = js_str (vs ! 1)
           in ''const _data='' @ data @ ''['' @ index @ ''-1];'')"

definition SaveDataBlock_toScript :: "node \<Rightarrow> error + string" where
  "SaveDataBlock_toScript n = with_attrs n [''name'', ''data'']
     (\<lambda>vs. let name = js_str (vs ! 0); data = js_str (vs ! 1)
           in ''await __API__.__SaveData__('' @ name @ '','' @ data @ '');'')"

definition SaveListBlock_toScript :: "node \<Rightarrow> error + string" where
  "SaveListBlock_toScript n = with_attrs n [''name'', ''data'']
     (\<lambda>vs. let name = js_str (vs ! 0); data = js_str (vs ! 1)
           in ''await __API__.__SaveList__('' @ name @ '','' @ data @ '');'')"

definition GetElementListByTypeFromDocumentBlock_toScript :: "node \<Rightarrow> error + string" where
  "GetElementListByTypeFromDocumentBlock_toScript n = with_attrs n [''type'']
     (\<lambda>vs. let type = js_str (vs ! 0)
           in ''const _elements=document.querySelectorAll('' @ [CHR 0x27] @ type @ [CHR 0x27] @ '');'')"

definition GetElementContentBlock_toScript :: "node \<Rightarrow> error + string" where
  "GetElementContentBlock_toScript n = with_attrs n [''element'']
     (\<lambda>vs. let element = js_str (vs ! 0)
           in ''const _text='' @ element @ ''.textContent ?? '' @ element @ ''.value;'')"

definition HideElementBlock_toScript :: "node \<Rightarrow> error + string" where
  "HideElementBlock_toScript n = with_attrs n [''element'']
     (\<lambda>vs. let element = js_str (vs ! 0)
           in element @ ''.style.oldDisplay='' @ element @ ''.style.display;'' @ element
              @ ''.style.display='' @ [CHR 0x27] @ ''none'' @ [CHR 0x27] @ '';'')"

definition ShowElementBlock_toScript :: "node \<Rightarrow> error + string" where
  "ShowElementBlock_toScript n = with_attrs n [''element'']
     (\<lambda>vs. let element = js_str (vs ! 0)
           in element @ ''.style.display='' @ element @ ''.style.oldDisplay;delete '' @ element
              @ ''.style.oldDisplay;'')"

definition SetElementOpacityBlock_toScript :: "node \<Rightarrow> error + string" where
  "SetElementOpacityBlock_toScript n = with_attrs n [''element'', ''opacity'']
     (\<lambda>vs. let element = js_str (vs ! 0); opacity = js_str (vs ! 1)
           in element @ ''.style.opacity='' @ opacity @ ''/100;'')"

definition SetElementContentBlock_toScript :: "node \<Rightarrow> error + string" where
  "SetElementContentBlock_toScript n = with_attrs n [''element'', ''text'']
     (\<lambda>vs. let element = js_str (vs ! 0); text = js_str (vs ! 1)
           in element @ ''.value!==undefined?'' @ element @ ''.value='' @ text @ '':'' @ element
              @ ''.textContent='' @ text @ '';'')"

definition SetElementPasswordBlock_toScript :: "node \<Rightarrow> error + string" where
  "SetElementPasswordBlock_toScript n = with_attrs n [''element'', ''password'']
     (\<lambda>vs. let element = js_str (vs ! 0); password = js_str (vs ! 1)
           in element @ ''.value='' @ password @ '';'')"

definition RemoveElementBlock_toScript :: "node \<Rightarrow> error + string" where
  "RemoveElementBlock_toScript n = with_attrs n [''element'']
     (\<lambda>vs. let element = js_str (vs ! 0) in element @ ''.remove();'')"

definition GetElementByCaptureBlockFromDocument_toScript :: "node \<Rightarrow> error + string" where
  "GetElementByCaptureBlockFromDocument_toScript n = with_attrs n [''elementId'']
     (\<lambda>vs. let elementId = js_str (vs ! 0)
           in ''const _element=await __API__.__GetCapturedElement__('' @ [CHR 0x27] @ elementId
              @ [CHR 0x27] @ '');'')"

definition ClickElementBlock_toScript :: "node \<Rightarrow> error + string" where
  "ClickElementBlock_toScript n = with_attrs n [''element'']
     (\<lambda>vs. let element = js_str (vs ! 0) in element @ ''.click();'')"

text \<open>
  \<open>OpenUrlBlock.toScript\<close> switches on the raw \<open>position\<close>; a value that matches no case
  (a variable-proxied position, or an unset one) falls off the end of the method, which
  returns \<open>undefined\<close>, and the template literal of \<open>packScript\<close> prints it.
\<close>

definition OpenUrlBlock_toScript :: "node \<Rightarrow> error + string" where
  "OpenUrlBlock_toScript n = with_attrs n [''url'', ''position'']
     (\<lambda>vs. let url = js_str (vs ! 0); position = vs ! 1
           in if position = JStr ''newTab'' then ''window.open('' @ url @ '', '_blank');''
              else if position = JStr ''currentTab'' then ''location.href='' @ url @ '';''
              else if position = JStr ''newWindow''
              then ''window.open('' @ url @ '', '_blank', 'width=800,height=600');''
              else js_str JUndefined)"

definition CloseTabBlock_toScript :: "node \<Rightarrow> error + string" where
  "CloseTabBlock_toScript n = Inr ''window.close();''"

definition ScriptFocusBlock_toScript :: "node \<Rightarrow> error + string" where
  "ScriptFocusBlock_toScript n = Inr ''await __API__.__ScriptFocus__(__VAR__.__ID__);''"

definition GetUrlBlock_toScript :: "node \<Rightarrow> error + string" where
  "GetUrlBlock_toScript n = Inr ''const _url=location.href;''"

definition GetTitleBlock_toScript :: "node \<Rightarrow> error + string" where
  "GetTitleBlock_toScript n = Inr ''const _title=document.title;''"

definition ForwardBlock_toScript :: "node \<Rightarrow> error + string" where
  "ForwardBlock_toScript n = Inr ''history.forward();''"

definition BackBlock_toScript :: "node \<Rightarrow> error + string" where
  "BackBlock_toScript n = Inr ''history.back();''"

definition WaitBlock_toScript :: "node \<Rightarrow> error + string" where
  "WaitBlock_toScript n = with_attrs n [''time'']
     (\<lambda>vs. let time = js_str (vs ! 0)
           in ''await new Promise(resolve=>setTimeout(resolve,'' @ time @ ''));'')"

section \<open>Conditions of the conditional blocks\<close>

definition IfStringBlock_condition :: "node \<Rightarrow> error + string" where
  "IfStringBlock_condition n = with_attrs n [''string1'', ''condition'', ''string2'']
     (\<lambda>vs. js_str (vs ! 0) @ js_str (vs ! 1) @ js_str (vs ! 2))"

definition IfNumberBlock_condition :: "node \<Rightarrow> error + string" where
  "IfNumberBlock_condition n = with_attrs n [''number1'', ''condition'', ''number2'']
     (\<lambda>vs. js_str (vs ! 0) @ js_str (vs ! 1) @ js_str (vs ! 2))"

definition IfBooleanBlock_condition :: "node \<Rightarrow> error + string" where
  "IfBooleanBlock_condition n = with_attrs n [''boolean1'', ''condition'', ''boolean2'']
     (\<lambda>vs. js_str (vs ! 0) @ js_str (vs ! 1) @ js_str (vs ! 2))"

definition IfExistBlock_condition :: "node \<Rightarrow> error + string" where
  "IfExistBlock_condition n = with_attrs n [''variable'', ''condition'']
     (\<lambda>vs. let variable = js_str (vs ! 0); condition = js_str (vs ! 1)
           in variable @ '' != null === '' @ condition @ '' && '' @ variable @ '' !== \"\" === ''
              @ condition)"

definition IfContainBlock_condition :: "node \<Rightarrow> error + string" where
  "IfContainBlock_condition n = with_attrs n [''string'', ''search'']
     (\<lambda>vs. js_str (vs ! 0) @ ''?.includes('' @ js_str (vs ! 1) @ '')'')"

definition IfVisibleBlock_condition :: "node \<Rightarrow> error + string" where
  "IfVisibleBlock_condition n = with_attrs n [''element'', ''condition'']
     (\<lambda>vs. ''!'' @ (if js_truthy (vs ! 1) then ''!'' else '''') @ js_str (vs ! 0)
           @ ''?.checkVisibility({checkOpacity: true, checkVisibilityCSS: true})'')"

text \<open>
  \<open>IfBlock.toScript(_stepList, condition)\<close>: a missing or empty condition is fatal;
  \<open>IfBlock\<close> itself supplies none.
\<close>

definition if_condition :: "node \<Rightarrow> error + string" where
  "if_condition n =
     (case nkind n of
        IfStringBlock \<Rightarrow> IfStringBlock_condition n
      | IfNumberBlock \<Rightarrow> IfNumberBlock_condition n
      | IfBooleanBlock \<Rightarrow> IfBooleanBlock_condition n
      | IfExistBlock \<Rightarrow> IfExistBlock_condition n
      | IfContainBlock \<Rightarrow> IfContainBlock_condition n
      | IfVisibleBlock \<Rightarrow> IfVisibleBlock_condition n
      | _ \<Rightarrow> Inr [])"

section \<open>Lemmas\<close>

lemmas leaf_body_defs =
  GetDatetimeBlock_toScript_def SmartBlock_toScript_def CreateDataBlock_toScript_def
  EditStringDataBlock_toScript_def EditNumberDataBlock_toScript_def EditBooleanDataBlock_toScript_def
  CreateListBlock_toScript_def SetListByPushBlock_toScript_def TakeListByPopBlock_toScript_def
  TakeListByIndexBlock_toScript_def SetListByIndexBlock_toScript_def GetListByIndexBlock_toScript_def
  SaveDataBlock_toScript_def SaveListBlock_toScript_def GetElementListByTypeFromDocumentBlock_toScript_def
  GetElementContentBlock_toScript_def HideElementBlock_toScript_def ShowElementBlock_toScript_def
  SetElementOpacityBlock_toScript_def SetElementContentBlock_toScript_def SetElementPasswordBlock_toScript_def
  RemoveElementBlock_toScript_def GetElementByCaptureBlockFromDocument_toScript_def ClickElementBlock_toScript_def
  OpenUrlBlock_toScript_def CloseTabBlock_toScript_def ScriptFocusBlock_toScript_def
  GetUrlBlock_toScript_def GetTitleBlock_toScript_def ForwardBlock_toScript_def
  BackBlock_toScript_def WaitBlock_toScript_def


lemma sbind_simps [simp]:
  "sbind (Inl e) f = Inl e"
  "sbind (Inr x) f = f x"
  by (simp_all add: sbind_def)

end
