(* ===== verification/Compiler.thy ===== *)
theory Compiler
  imports Bodies
begin

text \<open>
  The compiler of \<open>Block.ts\<close>: \<open>Block.packScript\<close> over the bodies of the theory
  \<open>Bodies\<close>, and its overrides in \<open>RootBlock\<close>, \<open>IfBlock\<close>, \<open>ElseBlock\<close>, \<open>LoopBlock\<close> and
  \<open>MacroBlock\<close>. A tree to compile is a \<open>node\<close> whose children are listed in sibling
  order (\<open>firstChild\<close>, then \<open>afterBlock\<close>, as the compiler walks them); the static
  ancestor chain (\<open>this.parent\<close>, \<open>this.parent.parent\<close>, ...) is passed down as the
  list of the ancestors' classes, nearest first. The shared, mutated \<open>stepList\<close> array is
  threaded through: \<open>packScript\<close> returns the array as it leaves it.

  \<open>packScript\<close> returns the emitted program as a list of fragments (\<open>citem\<close>): one per
  dispatch case, each carrying what its text says, and the separators. \<open>render\<close> prints
  a fragment exactly as the source's template literals do, so the concatenation is the
  source's string; the runtime theory reads the same fragments as a dispatch table.
\<close>

section \<open>The emitted program\<close>

text \<open>
  What a case body does, as the source's text says it: a leaf body (opaque host code), the
  conditional push of \<open>IfBlock\<close>, the \<open>stepList.push(0)\<close> of \<open>LoopBlock\<close>, the
  truncation of \<open>BreakBlock\<close>/\<open>ContinueBlock\<close> and the sentinel of \<open>ExitBlock\<close>.
\<close>

datatype stmt =
    Body nat string
  | CondPush nat string
  | PushZero
  | Splice nat int
  | ExitAll

text \<open>
  The fragments of the program: a \<open>Block.packScript\<close> case (label, body, export
  assignments as alias and inner variable), the fall-through label of \<open>ElseBlock\<close> (its
  label and its own index), the re-entry case of \<open>LoopBlock\<close>, the two cases of
  \<open>MacroBlock\<close> (with the macro block's id, which the text does not show), and the space that \<open>childScripts.join(" ")\<close> puts between children.
\<close>

datatype citem =
    Case "int list" "stmt list" "(string \<times> string) list"
  | ElseCase "int list" int
  | LoopRepeat "int list"
  | MacroStart nat "int list"
  | MacroWait nat "int list" string string
  | Space

definition IfBlock_text :: "string \<Rightarrow> string" where
  "IfBlock_text condition =
     ''const _result = ('' @ condition @ ''); if (_result) { stepList.push(0); } else { stepList.push(-1); }''"

definition LoopBlock_text :: string where
  "LoopBlock_text = ''stepList.push(0);''"

definition splice_text :: "nat \<Rightarrow> int \<Rightarrow> string" where
  "splice_text layer v =
     ''stepList.splice(-'' @ nat_str layer @ '', '' @ nat_str layer @ ''); stepList[stepList.length - 1]=''
     @ int_str v @ '';''"

definition ExitBlock_text :: string where
  "ExitBlock_text = ''stepList.splice(0, stepList.length, Infinity);''"

fun stmt_text :: "stmt \<Rightarrow> string" where
  "stmt_text (Body i t) = t"
| "stmt_text (CondPush i c) = IfBlock_text c"
| "stmt_text PushZero = LoopBlock_text"
| "stmt_text (Splice k v) = splice_text k v"
| "stmt_text ExitAll = ExitBlock_text"

definition export_text :: "string \<times> string \<Rightarrow> string" where
  "export_text ae = ''__VAR__.'' @ fst ae @ '' = '' @ snd ae @ '';''"

definition case_text :: "int list \<Rightarrow> stmt list \<Rightarrow> (string \<times> string) list \<Rightarrow> string" where
  "case_text p ss es =
     ''case \"'' @ stepKey p @ ''\":{'' @ concat (map stmt_text ss)
     @ js_join [CHR 0x0A] (map export_text es) @ ''}break;''"

definition else_case_text :: "int list \<Rightarrow> int \<Rightarrow> string" where
  "else_case_text p j =
     ''case \"'' @ stepKey p @ ''\": stepList[stepList.length - 1] = '' @ int_str j @ '' + 1;''"

definition loop_repeat_text :: "int list \<Rightarrow> string" where
  "loop_repeat_text p = ''case \"'' @ stepKey p @ ''\": stepList[stepList.length - 1] = 0; break;''"

definition macro_start_text :: "int list \<Rightarrow> string" where
  "macro_start_text p =
     ''case \"'' @ stepKey p @ ''\":{ __TEMP__['' @ [CHR 0x27] @ ''Macro.'' @ [CHR 0x27]
     @ ''+__VAR__.__ID__] = true; __VAR__.__MacroExecuting__ = true; } break;''"

definition macro_wait_text :: "int list \<Rightarrow> string \<Rightarrow> string \<Rightarrow> string" where
  "macro_wait_text p body macroId =
     ''case \"'' @ stepKey p @ ''\":{ if(__VAR__.__MacroExecuting__) { stepList[stepList.length - 1]--; if(__TEMP__[''
     @ [CHR 0x27] @ ''Macro.'' @ [CHR 0x27] @ ''+__VAR__.__ID__]) { '' @ body
     @ '' } else { await __WaitMacroExecute__('' @ [CHR 0x27] @ macroId @ [CHR 0x27]
     @ ''); } __VAR__.__MacroExecuting__ = false; } } break;''"

fun render :: "citem \<Rightarrow> string" where
  "render (Case p ss es) = case_text p ss es"
| "render (ElseCase p j) = else_case_text p j"
| "render (LoopRepeat p) = loop_repeat_text p"
| "render (MacroStart i p) = macro_start_text p"
| "render (MacroWait i p body macroId) = macro_wait_text p body macroId"
| "render Space = '' ''"

definition render_all :: "citem list \<Rightarrow> string" where
  "render_all cs = concat (map render cs)"

text \<open>\<open>childScripts.join(" ")\<close> on the children's fragment lists.\<close>

fun join_children :: "citem list list \<Rightarrow> citem list" where
  "join_children [] = []"
| "join_children [cs] = cs"
| "join_children (cs # ds # css) = cs @ Space # join_children (ds # css)"

section \<open>Per-class bodies and cases\<close>

text \<open>
  The layer count of \<open>BreakBlock.toScript\<close> and \<open>ContinueBlock.toScript\<close>: the number of
  ancestors passed before the nearest \<open>LoopBlock\<close>; \<open>None\<close> when the chain ends first.
\<close>

fun loop_layer :: "kind list \<Rightarrow> nat option" where
  "loop_layer [] = None"
| "loop_layer (k # ks) = (if is_loop k then Some 0 else map_option Suc (loop_layer ks))"

definition BreakBlock_toScript :: "kind list \<Rightarrow> stmt list" where
  "BreakBlock_toScript anc = (case loop_layer anc of None \<Rightarrow> [] | Some layer \<Rightarrow> [Splice layer (-1)])"

definition ContinueBlock_toScript :: "kind list \<Rightarrow> stmt list" where
  "ContinueBlock_toScript anc = (case loop_layer anc of None \<Rightarrow> [] | Some layer \<Rightarrow> [Splice layer 0])"

text \<open>\<open>IfBlock.toScript(_stepList, condition)\<close>: a missing or empty condition is fatal.\<close>

definition IfBlock_toScript :: "nat \<Rightarrow> string \<Rightarrow> error + stmt list" where
  "IfBlock_toScript i condition =
     (if condition = [] then Inl ConditionRequired else Inr [CondPush i condition])"

text \<open>\<open>this.toScript(stepList)\<close> of the classes whose \<open>packScript\<close> is \<open>Block.packScript\<close>.\<close>

definition leaf_toScript :: "node \<Rightarrow> kind list \<Rightarrow> error + stmt list" where
  "leaf_toScript n anc =
     (let body = (\<lambda>r. sbind r (\<lambda>t. Inr [Body (nid n) t])) in
      case nkind n of
        Block \<Rightarrow> Inr [Body (nid n) []]
      | TestBlock \<Rightarrow> body (TestBlock_toScript n)
      | LogBlock \<Rightarrow> body (LogBlock_toScript n)
      | AlertBlock \<Rightarrow> body (AlertBlock_toScript n)
      | PromptBlock \<Rightarrow> body (PromptBlock_toScript n)
      | ConfirmBlock \<Rightarrow> body (ConfirmBlock_toScript n)
      | CalculateNumberBlock \<Rightarrow> body (CalculateNumberBlock_toScript n)
      | ConcatStringBlock \<Rightarrow> body (ConcatStringBlock_toScript n)
      | ReplaceStringBlock \<Rightarrow> body (ReplaceStringBlock_toScript n)
      | CreateNumberBlock \<Rightarrow> body (CreateNumberBlock_toScript n)
      | RandomNumberBlock \<Rightarrow> body (RandomNumberBlock_toScript n)
      | GetDatetimeBlock \<Rightarrow> body (GetDatetimeBlock_toScript n)
      | SmartBlock \<Rightarrow> body (SmartBlock_toScript n)
      | CreateDataBlock \<Rightarrow> body (CreateDataBlock_toScript n)
      | EditStringDataBlock \<Rightarrow> body (EditStringDataBlock_toScript n)
      | EditNumberDataBlock \<Rightarrow> body (EditNumberDataBlock_toScript n)
      | EditBooleanDataBlock \<Rightarrow> body (EditBooleanDataBlock_toScript n)
      | CreateListBlock \<Rightarrow> body (CreateListBlock_toScript n)
      | SetListByPushBlock \<Rightarrow> body (SetListByPushBlock_toScript n)
      | TakeListByPopBlock \<Rightarrow> body (TakeListByPopBlock_toScript n)
      | TakeListByIndexBlock \<Rightarrow> body (TakeListByIndexBlock_toScript n)
      | SetListByIndexBlock \<Rightarrow> body (SetListByIndexBlock_toScript n)
      | GetListByIndexBlock \<Rightarrow> body (GetListByIndexBlock_toScript n)
      | SaveDataBlock \<Rightarrow> body (SaveDataBlock_toScript n)
      | SaveListBlock \<Rightarrow> body (SaveListBlock_toScript n)
      | GetElementListByTypeFromDocumentBlock \<Rightarrow> body (GetElementListByTypeFromDocumentBlock_toScript n)
      | GetElementContentBlock \<Rightarrow> body (GetElementContentBlock_toScript n)
      | HideElementBlock \<Rightarrow> body (HideElementBlock_toScript n)
      | ShowElementBlock \<Rightarrow> body (ShowElementBlock_toScript n)
      | SetElementOpacityBlock \<Rightarrow> body (SetElementOpacityBlock_toScript n)
      | SetElementContentBlock \<Rightarrow> body (SetElementContentBlock_toScript n)
      | SetElementPasswordBlock \<Rightarrow> body (SetElementPasswordBlock_toScript n)
      | RemoveElementBlock \<Rightarrow> body (RemoveElementBlock_toScript n)
      | GetElementByCaptureBlockFromDocument \<Rightarrow> body (GetElementByCaptureBlockFromDocument_toScript n)
      | ClickElementBlock \<Rightarrow> body (ClickElementBlock_toScript n)
      | OpenUrlBlock \<Rightarrow> body (OpenUrlBlock_toScript n)
      | CloseTabBlock \<Rightarrow> body (CloseTabBlock_toScript n)
      | ScriptFocusBlock \<Rightarrow> body (ScriptFocusBlock_toScript n)
      | GetUrlBlock \<Rightarrow> body (GetUrlBlock_toScript n)
      | GetTitleBlock \<Rightarrow> body (GetTitleBlock_toScript n)
      | ForwardBlock \<Rightarrow> body (ForwardBlock_toScript n)
      | BackBlock \<Rightarrow> body (BackBlock_toScript n)
      | WaitBlock \<Rightarrow> body (WaitBlock_toScript n)
      | LoopBlock \<Rightarrow> Inr [PushZero]
      | BreakBlock \<Rightarrow> Inr (BreakBlock_toScript anc)
      | ContinueBlock \<Rightarrow> Inr (ContinueBlock_toScript anc)
      | ExitBlock \<Rightarrow> Inr [ExitAll]
      | k \<Rightarrow> (if is_if k then sbind (if_condition n) (IfBlock_toScript (nid n)) else Inr []))"

text \<open>The export assignments of \<open>Block.packScript\<close>: the slots whose alias is non-empty.\<close>

definition export_assigns :: "node \<Rightarrow> (string \<times> string) list" where
  "export_assigns n =
     map (\<lambda>v. (getVariableAlias n (ex_name v), ex_inner v))
       (filter (\<lambda>v. getVariableAlias n (ex_name v) \<noteq> []) (export_slots (nkind n)))"

text \<open>\<open>Block.packScript(stepList)\<close>.\<close>

definition block_case :: "node \<Rightarrow> int list \<Rightarrow> kind list \<Rightarrow> error + citem" where
  "block_case n p anc = sbind (leaf_toScript n anc) (\<lambda>ss. Inr (Case p ss (export_assigns n)))"

text \<open>\<open>ElseBlock.packScript(stepList)\<close>, which is its \<open>toScript\<close>.\<close>

definition ElseBlock_packScript :: "int list \<Rightarrow> kind list \<Rightarrow> citem list" where
  "ElseBlock_packScript p anc =
     (case anc of
        k # _ \<Rightarrow> (if is_if k then [ElseCase (upd_last (\<lambda>_. 0) p) (last p)] else [])
      | [] \<Rightarrow> [])"

text \<open>\<open>MacroBlock.packScript(stepList)\<close>: two cases; the array leaves one step further on.\<close>

definition MacroBlock_packScript :: "node \<Rightarrow> int list \<Rightarrow> error + citem list \<times> int list" where
  "MacroBlock_packScript n p =
     sbind (with_attrs n [''macroId''] (\<lambda>vs. js_str (vs ! 0))) (\<lambda>macroId.
     sbind (MacroBlock_toScript n) (\<lambda>body.
       (let p' = upd_last (\<lambda>x. x + 1) p in
        Inr ([MacroStart (nid n) p, MacroWait (nid n) p' body macroId], p'))))"

text \<open>
  What \<open>RootBlock.toScript\<close>, \<open>IfBlock.packScript\<close> and \<open>LoopBlock.packScript\<close> do once
  their children are packed (the children's fragments and the array as they left it).
\<close>

definition RootBlock_toScript :: "citem list list \<times> int list \<Rightarrow> error + citem list \<times> int list" where
  "RootBlock_toScript r = (case r of (css, q) \<Rightarrow> Inr (join_children css, butlast q))"

definition IfBlock_packScript ::
  "node \<Rightarrow> kind list \<Rightarrow> citem list list \<times> int list \<Rightarrow> error + citem list \<times> int list" where
  "IfBlock_packScript n anc r =
     (case r of (css, q) \<Rightarrow>
        (let p = butlast q in sbind (block_case n p anc) (\<lambda>c. Inr (c # join_children css, p))))"

definition LoopBlock_packScript ::
  "node \<Rightarrow> kind list \<Rightarrow> citem list list \<times> int list \<Rightarrow> error + citem list \<times> int list" where
  "LoopBlock_packScript n anc r =
     (case r of (css, q) \<Rightarrow>
        (let q' = upd_last (\<lambda>x. x + 1) q; p = butlast q' in
         sbind (block_case n p anc) (\<lambda>c. Inr (c # join_children css @ [LoopRepeat q'], p))))"

section \<open>packScript\<close>

text \<open>
  The dispatch of \<open>packScript\<close> over the classes; the compound classes first pack their
  children with a new trailing component \<open>0\<close>, each child after incrementing it.
\<close>

fun packScript :: "node \<Rightarrow> int list \<Rightarrow> kind list \<Rightarrow> error + citem list \<times> int list"
and pack_children :: "node list \<Rightarrow> int list \<Rightarrow> kind list \<Rightarrow> error + citem list list \<times> int list"
where
  "packScript (Node i k at al ag cs) p anc =
     (if k = RootBlock \<or> is_if k \<or> k = LoopBlock then
        (case pack_children cs (p @ [0]) (k # anc) of
           Inl e \<Rightarrow> Inl e
         | Inr r \<Rightarrow>
             (if k = RootBlock then RootBlock_toScript r
              else if k = LoopBlock then LoopBlock_packScript (Node i k at al ag cs) anc r
              else IfBlock_packScript (Node i k at al ag cs) anc r))
      else if k = ElseBlock then Inr (ElseBlock_packScript p anc, p)
      else if k = MacroBlock then MacroBlock_packScript (Node i k at al ag cs) p
      else sbind (block_case (Node i k at al ag cs) p anc) (\<lambda>c. Inr ([c], p)))"
| "pack_children [] p anc = Inr ([], p)"
| "pack_children (c # cs) p anc =
     (case packScript c (upd_last (\<lambda>x. x + 1) p) anc of
        Inl e \<Rightarrow> Inl e
      | Inr (t, q) \<Rightarrow>
          (case pack_children cs q anc of
             Inl e \<Rightarrow> Inl e
           | Inr (ts, q') \<Rightarrow> Inr (t # ts, q')))"

text \<open>
  \<open>RootBlock.packScript()\<close>: the driver loop around the dispatch table that
  \<open>RootBlock.toScript([])\<close> builds.
\<close>

definition RootBlock_packScript :: "node \<Rightarrow> error + string" where
  "RootBlock_packScript r =
     sbind (packScript r [] []) (\<lambda>(cs, _).
       Inr (''while (__API__.__LocalScript__[__VAR__.__ID__]) { const step = stepList.join(\"-\"); switch (step) {''
            @ render_all cs
            @ '' default: stepList.pop(); } if (stepList.length === 0) { await __API__.__FinishExecute__(__VAR__.__ID__); break; } stepList[stepList.length - 1]++; }''))"

text \<open>
  The number of positions a child takes in its parent's numbering: two for
  \<open>MacroBlock\<close>, whose \<open>packScript\<close> advances the shared array once more, one otherwise.
\<close>

definition step_width :: "node \<Rightarrow> int" where
  "step_width n = (if nkind n = MacroBlock then 2 else 1)"

text \<open>
  The trees the compiler accepts: no node is a bare \<open>IfBlock\<close>, and every node's
  attributes fit the types its class declares.
\<close>

fun compilable :: "node \<Rightarrow> bool" where
  "compilable (Node i k at al ag cs) \<longleftrightarrow>
     k \<noteq> IfBlock \<and> attrs_typed (defaultAttr k) at \<and> (\<forall>c \<in> set cs. compilable c)"

section \<open>Lemmas\<close>

lemma sbind_Inr_iff:
  "sbind m f = Inr r \<longleftrightarrow> (\<exists>x. m = Inr x \<and> f x = Inr r)"
  by (cases m) simp_all

text \<open>
  \<open>packScript\<close> leaves the shared \<open>stepList\<close> as it found it, but for the extra step
  of a macro; packing a list of children advances the last component by their widths.
\<close>

lemma finisher_steps:
  "RootBlock_toScript (css, q0) = Inr (cs, q) \<Longrightarrow> q = butlast q0"
  "IfBlock_packScript n anc (css, q0) = Inr (cs, q) \<Longrightarrow> q = butlast q0"
  "LoopBlock_packScript n anc (css, q0) = Inr (cs, q) \<Longrightarrow> q = butlast q0"
  "MacroBlock_packScript n p = Inr (cs, q) \<Longrightarrow> q = upd_last (\<lambda>x. x + 1) p"
  by (auto simp: RootBlock_toScript_def IfBlock_packScript_def LoopBlock_packScript_def
      MacroBlock_packScript_def sbind_Inr_iff Let_def)

lemma packScript_steps:
    "packScript n p anc = Inr (cs, q) \<Longrightarrow> q = upd_last (\<lambda>x. x + step_width n - 1) p"
  and pack_children_steps:
    "pack_children ns p anc = Inr (css, q) \<Longrightarrow>
     q = upd_last (\<lambda>x. x + sum_list (map step_width ns)) p"
proof (induction n p anc and ns p anc arbitrary: cs q and css q rule: packScript_pack_children.induct)
  case (1 i k at al ag ns p anc)
  have w: "step_width (Node i k at al ag ns) = (if k = MacroBlock then 2 else 1)"
    by (simp add: step_width_def)
  show ?case
  proof (cases "k = RootBlock \<or> is_if k \<or> k = LoopBlock")
    case True
    with "1.prems" obtain css q0 where
      ch: "pack_children ns (p @ [0]) (k # anc) = Inr (css, q0)" and
      fin: "(if k = RootBlock then RootBlock_toScript (css, q0)
             else if k = LoopBlock then LoopBlock_packScript (Node i k at al ag ns) anc (css, q0)
             else IfBlock_packScript (Node i k at al ag ns) anc (css, q0)) = Inr (cs, q)"
      by (auto split: sum.splits)
    from "1.IH"(1) [OF True ch] have "butlast q0 = p" by simp
    moreover from fin have "q = butlast q0"
      by (auto split: if_splits dest: finisher_steps)
    moreover from True have "k \<noteq> MacroBlock" by auto
    ultimately show ?thesis using w by simp
  next
    case notc: False
    show ?thesis
    proof (cases "k = MacroBlock")
      case True
      with "1.prems" have "MacroBlock_packScript (Node i k at al ag ns) p = Inr (cs, q)"
        by simp
      from finisher_steps(4) [OF this] True w show ?thesis
        by (simp add: algebra_simps)
    next
      case False
      with notc "1.prems" w show ?thesis
        by (auto simp: sbind_Inr_iff split: if_splits)
    qed
  qed
next
  case (2 p anc)
  then show ?case by simp
next
  case (3 c ns p anc)
  from "3.prems" obtain t q1 ts where
    c: "packScript c (upd_last (\<lambda>x. x + 1) p) anc = Inr (t, q1)" and
    r: "pack_children ns q1 anc = Inr (ts, q)"
    by (auto split: sum.splits)
  from "3.IH"(1) [OF c] have q1: "q1 = upd_last (\<lambda>x. x + step_width c) p"
    by (simp add: comp_def)
  have "q = upd_last (\<lambda>x. x + sum_list (map step_width ns)) q1"
    using "3.IH"(2) c r by fastforce
  with q1 show ?case by (simp add: comp_def algebra_simps)
qed

lemma loop_layer_None_iff: "loop_layer anc = None \<longleftrightarrow> LoopBlock \<notin> set anc"
  by (induction anc) auto

lemma loop_layer_prefix:
  "LoopBlock \<notin> set ifs \<Longrightarrow> loop_layer (ifs @ LoopBlock # rest) = Some (length ifs)"
  by (induction ifs) auto

lemma export_assigns_no_slots [simp]:
  "export_slots (nkind n) = [] \<Longrightarrow> export_assigns n = []"
  by (simp add: export_assigns_def)

lemma packScript_Break:
  "packScript (Node i BreakBlock at al ag cs) p anc =
     Inr ([Case p (BreakBlock_toScript anc) []], p)"
  by (simp add: block_case_def leaf_toScript_def export_assigns_def)

lemma packScript_Continue:
  "packScript (Node i ContinueBlock at al ag cs) p anc =
     Inr ([Case p (ContinueBlock_toScript anc) []], p)"
  by (simp add: block_case_def leaf_toScript_def export_assigns_def)

text \<open>
  The fragments of a loop: its own case pushing the nested component, its children's
  fragments, and the re-entry case one past the last child's positions.
\<close>

lemma packScript_Loop:
  assumes "packScript (Node i LoopBlock at al ag cs) p anc = Inr (items, q)"
  shows "\<exists>css. pack_children cs (p @ [0]) (LoopBlock # anc) = Inr (css, p @ [sum_list (map step_width cs)])
           \<and> items = Case p [PushZero] [] # join_children css
                       @ [LoopRepeat (p @ [1 + sum_list (map step_width cs)])]
           \<and> q = p"
proof -
  from assms obtain css q0 where
    ch: "pack_children cs (p @ [0]) (LoopBlock # anc) = Inr (css, q0)" and
    fin: "LoopBlock_packScript (Node i LoopBlock at al ag cs) anc (css, q0) = Inr (items, q)"
    by (auto split: sum.splits)
  from pack_children_steps [OF ch] have q0: "q0 = p @ [sum_list (map step_width cs)]"
    by simp
  from fin q0 show ?thesis using ch
    by (auto simp: LoopBlock_packScript_def block_case_def leaf_toScript_def Let_def
        algebra_simps)
qed

text \<open>
  C4. \<open>IfBlock\<close> itself supplies no condition to \<open>IfBlock.toScript\<close>, so compiling an
  \<open>IfBlock\<close> node fails with the fatal "condition is required" error once its
  children have been packed; the error propagates out of \<open>packScript\<close>.
\<close>

theorem if_block_condition_required:
  "pack_children cs (p @ [0]) (IfBlock # anc) = Inr r \<Longrightarrow>
   packScript (Node i IfBlock at al ag cs) p anc = Inl ConditionRequired"
  by (cases r) (simp add: IfBlock_packScript_def block_case_def leaf_toScript_def
      if_condition_def IfBlock_toScript_def)

theorem if_block_condition_required_witness:
  "pack_children [] ([1] @ [0]) [IfBlock, RootBlock] = Inr ([], [1, 0])
   \<and> packScript (Node 3 IfBlock [] [] [] []) [1] [RootBlock] = Inl ConditionRequired"
  using if_block_condition_required [of "[]" "[1]" "[RootBlock]" "([], [1, 0])" 3 "[]" "[]" "[]"]
  by simp

subsection \<open>When compilation succeeds\<close>

lemma with_attrs_Inr:
  assumes "\<forall>k \<in> set ks. map_of (defaultAttr (nkind n)) k \<noteq> None"
  shows "\<exists>vs. parse_attrs (defaultAttr (nkind n)) (nattrs n) (nagent n) ks = Inr vs
           \<and> with_attrs n ks f = Inr (f vs)"
proof -
  from parse_attrs_Inr [OF assms] obtain vs
    where "parse_attrs (defaultAttr (nkind n)) (nattrs n) (nagent n) ks = Inr vs" by blast
  then show ?thesis by (simp add: with_attrs_def)
qed

lemma with_attrs_first_nonempty:
  assumes keys: "\<forall>k \<in> set (k0 # ks). map_of (defaultAttr (nkind n)) k \<noteq> None"
    and d: "map_of (defaultAttr (nkind n)) k0 = Some d" "atype d \<noteq> TEnum"
    and typed: "attrs_typed (defaultAttr (nkind n)) (nattrs n)"
  shows "\<exists>vs. with_attrs n (k0 # ks) f = Inr (f vs) \<and> js_str (vs ! 0) \<noteq> []"
proof -
  from with_attrs_Inr [OF keys] obtain vs where
    p: "parse_attrs (defaultAttr (nkind n)) (nattrs n) (nagent n) (k0 # ks) = Inr vs" and
    w: "with_attrs n (k0 # ks) f = Inr (f vs)" by blast
  from parse_attrs_nth [OF p, of 0] have
    "parseScriptAttribute (defaultAttr (nkind n)) (nattrs n) (nagent n) k0 = Inr (vs ! 0)"
    by simp
  from parseScriptAttribute_nonempty [OF this d attrs_typed_key [OF typed d(1)]] w
  show ?thesis by blast
qed

lemma if_condition_Inr:
  assumes "is_if (nkind n)" "nkind n \<noteq> IfBlock"
    and typed: "attrs_typed (defaultAttr (nkind n)) (nattrs n)"
  shows "\<exists>c. if_condition n = Inr c \<and> c \<noteq> []"
proof -
  consider "nkind n = IfStringBlock" | "nkind n = IfNumberBlock" | "nkind n = IfBooleanBlock"
    | "nkind n = IfExistBlock" | "nkind n = IfContainBlock" | "nkind n = IfVisibleBlock"
    using assms(1,2) by auto
  then show ?thesis
  proof cases
    case 1
    let ?f = "\<lambda>vs. js_str (vs ! 0) @ js_str (vs ! 1) @ js_str (vs ! 2)"
    have "\<exists>vs. with_attrs n (''string1'' # [''condition'', ''string2'']) ?f = Inr (?f vs) \<and> js_str (vs ! 0) \<noteq> []"
      by (rule with_attrs_first_nonempty [where d = "str_attr [] True"]) (use 1 typed in \<open>simp_all add: schema_defs\<close>)
    with 1 show ?thesis
      by (auto simp: if_condition_def IfStringBlock_condition_def)
  next
    case 2
    let ?f = "\<lambda>vs. js_str (vs ! 0) @ js_str (vs ! 1) @ js_str (vs ! 2)"
    have "\<exists>vs. with_attrs n (''number1'' # [''condition'', ''number2'']) ?f = Inr (?f vs) \<and> js_str (vs ! 0) \<noteq> []"
      by (rule with_attrs_first_nonempty [where d = "num_attr 0 True"]) (use 2 typed in \<open>simp_all add: schema_defs\<close>)
    with 2 show ?thesis
      by (auto simp: if_condition_def IfNumberBlock_condition_def)
  next
    case 3
    let ?f = "\<lambda>vs. js_str (vs ! 0) @ js_str (vs ! 1) @ js_str (vs ! 2)"
    have "\<exists>vs. with_attrs n (''boolean1'' # [''condition'', ''boolean2'']) ?f = Inr (?f vs) \<and> js_str (vs ! 0) \<noteq> []"
      by (rule with_attrs_first_nonempty [where d = "bool_attr True True"]) (use 3 typed in \<open>simp_all add: schema_defs\<close>)
    with 3 show ?thesis
      by (auto simp: if_condition_def IfBooleanBlock_condition_def)
  next
    case 4
    then show ?thesis
      using with_attrs_Inr [of "[''variable'', ''condition'']" n]
      by (auto simp: if_condition_def IfExistBlock_condition_def schema_defs Let_def)
  next
    case 5
    then show ?thesis
      using with_attrs_Inr [of "[''string'', ''search'']" n]
      by (auto simp: if_condition_def IfContainBlock_condition_def schema_defs)
  next
    case 6
    then show ?thesis
      using with_attrs_Inr [of "[''element'', ''condition'']" n]
      by (auto simp: if_condition_def IfVisibleBlock_condition_def schema_defs)
  qed
qed

lemma body_Inr:
  "\<forall>k \<in> set ks. map_of (defaultAttr (nkind n)) k \<noteq> None \<Longrightarrow>
   \<exists>ss. sbind (with_attrs n ks f) (\<lambda>t. Inr [Body i t]) = Inr ss"
  using with_attrs_Inr [of ks n f] by auto

lemma leaf_toScript_Inr:
  assumes "nkind n \<noteq> IfBlock" and typed: "attrs_typed (defaultAttr (nkind n)) (nattrs n)"
  shows "\<exists>ss. leaf_toScript n anc = Inr ss"
proof (cases "is_if (nkind n)")
  case True
  from if_condition_Inr [OF True assms] obtain c where "if_condition n = Inr c" "c \<noteq> []"
    by blast
  with True assms(1) show ?thesis
    by (cases "nkind n") (simp_all add: leaf_toScript_def IfBlock_toScript_def)
next
  case False
  then show ?thesis
    by (cases "nkind n")
       (auto simp: leaf_toScript_def TestBlock_toScript_def LogBlock_toScript_def
          AlertBlock_toScript_def PromptBlock_toScript_def ConfirmBlock_toScript_def
          CalculateNumberBlock_toScript_def ConcatStringBlock_toScript_def
          ReplaceStringBlock_toScript_def CreateNumberBlock_toScript_def
          RandomNumberBlock_toScript_def leaf_body_defs schema_defs intro!: body_Inr)
qed

lemma block_case_Inr:
  "nkind n \<noteq> IfBlock \<Longrightarrow> attrs_typed (defaultAttr (nkind n)) (nattrs n) \<Longrightarrow>
   \<exists>c. block_case n p anc = Inr c"
  using leaf_toScript_Inr [of n anc] by (auto simp: block_case_def)

lemma MacroBlock_packScript_Inr:
  "nkind n = MacroBlock \<Longrightarrow> \<exists>r. MacroBlock_packScript n p = Inr r"
  using with_attrs_Inr [of "[''macroId'']" n "\<lambda>vs. js_str (vs ! 0)"]
    with_attrs_Inr [of "[''macroId'']" n
      "\<lambda>vs. let macroId = js_str (vs ! 0)
            in ''await __API__.__ExecuteMacro__('' @ [CHR 0x27] @ macroId @ [CHR 0x27] @ '');''"]
  by (auto simp: MacroBlock_packScript_def MacroBlock_toScript_def schema_defs Let_def)

lemma packScript_Inr:
  "compilable n \<Longrightarrow> \<exists>r. packScript n p anc = Inr r"
  and pack_children_Inr:
  "\<forall>c \<in> set ns. compilable c \<Longrightarrow> \<exists>r. pack_children ns p anc = Inr r"
proof (induction n p anc and ns p anc rule: packScript_pack_children.induct)
  case (1 i k at al ag cs p anc)
  then have k: "k \<noteq> IfBlock" and typed: "attrs_typed (defaultAttr k) at"
    and ch: "\<forall>c \<in> set cs. compilable c" by auto
  have bc: "\<And>q anc'. \<exists>c. block_case (Node i k at al ag cs) q anc' = Inr c"
    using block_case_Inr [of "Node i k at al ag cs"] k typed by simp
  show ?case
  proof (cases "k = RootBlock \<or> is_if k \<or> k = LoopBlock")
    case True
    from "1.IH"(1) [OF True ch] obtain css q0
      where r: "pack_children cs (p @ [0]) (k # anc) = Inr (css, q0)" by auto
    show ?thesis
      using True r bc [of "butlast q0" anc] bc [of "butlast (upd_last (\<lambda>x. x + 1) q0)" anc]
      by (auto simp: RootBlock_toScript_def IfBlock_packScript_def LoopBlock_packScript_def Let_def)
  next
    case False
    then show ?thesis
      using bc [of p anc] MacroBlock_packScript_Inr [of "Node i k at al ag cs" p]
      by auto
  qed
next
  case (2 p anc)
  then show ?case by simp
next
  case (3 c cs p anc)
  from "3.prems" have "compilable c" "\<forall>c' \<in> set cs. compilable c'" by auto
  from "3.IH"(1) [OF this(1)] obtain t q
    where c: "packScript c (upd_last (\<lambda>x. x + 1) p) anc = Inr (t, q)" by auto
  from "3.IH"(2) [OF c refl \<open>\<forall>c' \<in> set cs. compilable c'\<close>]
  obtain ts q' where "pack_children cs q anc = Inr (ts, q')" by auto
  with c show ?case by simp
qed

text \<open>
  C7. Compilation of a well-typed tree never fails: when no node is a bare \<open>IfBlock\<close> (whose
  \<open>getCondition\<close> is empty) and every attribute value of a number or boolean slot is a number,
  boolean, \<open>null\<close> or \<open>undefined\<close>, \<open>RootBlock.packScript\<close> returns the script text and
  raises neither \<open>ConditionRequired\<close> nor an attribute error.
\<close>

theorem compile_total:
  "compilable r \<Longrightarrow> \<exists>js. RootBlock_packScript r = Inr js"
  using packScript_Inr [of r "[]" "[]"] by (auto simp: RootBlock_packScript_def)

theorem compile_total_witness:
  "compilable (Node 0 RootBlock [] [] []
     [Node 1 IfNumberBlock [(''number1'', JNum 3), (''condition'', JStr ''<''), (''number2'', JNum 5)] [] []
        [Node 2 LogBlock [(''level'', JStr ''log''), (''text'', JStr ''x'')] [] [] []],
      Node 3 ElseBlock [] [] [] [],
      Node 4 LoopBlock [] [] [] [Node 5 BreakBlock [] [] [] []]])
   \<and> (\<exists>js. RootBlock_packScript (Node 0 RootBlock [] [] []
     [Node 1 IfNumberBlock [(''number1'', JNum 3), (''condition'', JStr ''<''), (''number2'', JNum 5)] [] []
        [Node 2 LogBlock [(''level'', JStr ''log''), (''text'', JStr ''x'')] [] [] []],
      Node 3 ElseBlock [] [] [] [],
      Node 4 LoopBlock [] [] [] [Node 5 BreakBlock [] [] [] []]]) = Inr js)"
proof -
  have c: "compilable (Node 0 RootBlock [] [] []
     [Node 1 IfNumberBlock [(''number1'', JNum 3), (''condition'', JStr ''<''), (''number2'', JNum 5)] [] []
        [Node 2 LogBlock [(''level'', JStr ''log''), (''text'', JStr ''x'')] [] [] []],
      Node 3 ElseBlock [] [] [] [],
      Node 4 LoopBlock [] [] [] [Node 5 BreakBlock [] [] [] []]])"
    by (simp add: attrs_typed_def schema_defs get_attr_def)
  show ?thesis using compile_total [OF c] c by blast
qed

end
