(* ===== verification/Runtime.thy ===== *)
theory Runtime
  imports Compiler
begin

text \<open>
  The emitted program as it runs in the page (\<open>src/src/entries/page_script.js\<close> and the
  driver loop that \<open>RootBlock.packScript\<close> writes). The state is the \<open>stepList\<close> array,
  whose elements are integers or the \<open>Infinity\<close> that \<open>ExitBlock\<close> writes, the two macro
  flags, and the trace of host effects: the bodies that ran and the conditions that were
  tested. Host code is opaque: a body's run is an event, a condition's value comes from
  an oracle that may depend on everything that ran before. One driver iteration
  dispatches on \<open>stepList.join("-")\<close>, runs the matched case with JavaScript's switch
  fall-through (a case without \<open>break\<close> runs into the next, the last runs into
  \<open>default: stepList.pop()\<close>), stops when the array is empty, and increments the last
  element otherwise. The loop itself may not stop, so runs take fuel.
\<close>

section \<open>State\<close>

datatype rv = Num int | Infinity

fun rv_str :: "rv \<Rightarrow> string" where
  "rv_str (Num i) = int_str i"
| "rv_str Infinity = ''Infinity''"

fun rv_inc :: "rv \<Rightarrow> rv" where
  "rv_inc (Num i) = Num (i + 1)"
| "rv_inc Infinity = Infinity"

definition runKey :: "rv list \<Rightarrow> string" where
  "runKey st = js_join ''-'' (map rv_str st)"

datatype event = Ran nat | Tested nat bool | WaitedMacro nat

type_synonym cond_oracle = "event list \<Rightarrow> nat \<Rightarrow> bool"

record rstate =
  steps :: "rv list"
  macro_executing :: bool
  temp_macro :: bool
  events :: "event list"

section \<open>Statements and cases\<close>

text \<open>
  What the statement texts of the cases do when the page runs them: the host body of a
  leaf, the conditional push of \<open>IfBlock\<close> (\<open>if (_result) { stepList.push(0); } else
  { stepList.push(-1); }\<close>), the push of \<open>LoopBlock\<close>, the truncation of
  \<open>BreakBlock\<close>/\<open>ContinueBlock\<close> (\<open>stepList.splice(-k, k)\<close> removes the last \<open>k\<close>
  elements, none when \<open>k = 0\<close> since \<open>-0\<close> is \<open>0\<close>, then the new last element is
  set) and the sentinel of \<open>ExitBlock\<close>.
\<close>

definition body_step :: "nat \<Rightarrow> rstate \<Rightarrow> rstate" where
  "body_step i s = s\<lparr>events := events s @ [Ran i]\<rparr>"

definition IfBlock_step :: "cond_oracle \<Rightarrow> nat \<Rightarrow> rstate \<Rightarrow> rstate" where
  "IfBlock_step orc i s =
     (let b = orc (events s) i in
      s\<lparr>steps := steps s @ [Num (if b then 0 else -1)], events := events s @ [Tested i b]\<rparr>)"

definition LoopBlock_step :: "rstate \<Rightarrow> rstate" where
  "LoopBlock_step s = s\<lparr>steps := steps s @ [Num 0]\<rparr>"

definition splice_step :: "nat \<Rightarrow> int \<Rightarrow> rstate \<Rightarrow> rstate" where
  "splice_step layer v s =
     s\<lparr>steps := upd_last (\<lambda>_. Num v) (take (length (steps s) - layer) (steps s))\<rparr>"

definition ExitBlock_step :: "rstate \<Rightarrow> rstate" where
  "ExitBlock_step s = s\<lparr>steps := [Infinity]\<rparr>"

fun exec_stmt :: "cond_oracle \<Rightarrow> rstate \<Rightarrow> stmt \<Rightarrow> rstate" where
  "exec_stmt orc s (Body i t) = body_step i s"
| "exec_stmt orc s (CondPush i c) = IfBlock_step orc i s"
| "exec_stmt orc s PushZero = LoopBlock_step s"
| "exec_stmt orc s (Splice k v) = splice_step k v s"
| "exec_stmt orc s ExitAll = ExitBlock_step s"

definition exec_stmts :: "cond_oracle \<Rightarrow> rstate \<Rightarrow> stmt list \<Rightarrow> rstate" where
  "exec_stmts orc s ss = foldl (exec_stmt orc) s ss"

fun item_label :: "citem \<Rightarrow> int list option" where
  "item_label (Case p ss es) = Some p"
| "item_label (ElseCase p j) = Some p"
| "item_label (LoopRepeat p) = Some p"
| "item_label (MacroStart i p) = Some p"
| "item_label (MacroWait i p b m) = Some p"
| "item_label Space = None"

text \<open>The switch's own matching: the first case whose label equals the key.\<close>

fun dispatch :: "citem list \<Rightarrow> string \<Rightarrow> citem list option" where
  "dispatch [] key = None"
| "dispatch (c # cs) key =
     (case item_label c of
        Some p \<Rightarrow> (if stepKey p = key then Some (c # cs) else dispatch cs key)
      | None \<Rightarrow> dispatch cs key)"

text \<open>Running from a matched case to the next \<open>break\<close>, or into \<open>default\<close>.\<close>

text \<open>
  The cases without statements of their own: the else label (sets the last element to
  the index after the else block and has no \<open>break\<close>), the loop re-entry case and the
  two macro cases.
\<close>

definition ElseBlock_step :: "int \<Rightarrow> rstate \<Rightarrow> rstate" where
  "ElseBlock_step j s = s\<lparr>steps := upd_last (\<lambda>_. Num (j + 1)) (steps s)\<rparr>"

definition LoopRepeat_step :: "rstate \<Rightarrow> rstate" where
  "LoopRepeat_step s = s\<lparr>steps := upd_last (\<lambda>_. Num 0) (steps s)\<rparr>"

definition MacroStart_step :: "rstate \<Rightarrow> rstate" where
  "MacroStart_step s = s\<lparr>temp_macro := True, macro_executing := True\<rparr>"

definition MacroWait_step :: "nat \<Rightarrow> rstate \<Rightarrow> rstate" where
  "MacroWait_step i s =
     (if macro_executing s then
        s\<lparr>steps := upd_last (\<lambda>x. case x of Num k \<Rightarrow> Num (k - 1) | Infinity \<Rightarrow> Infinity) (steps s),
          events := events s @ [if temp_macro s then Ran i else WaitedMacro i],
          macro_executing := False\<rparr>
      else s)"

text \<open>Running from a matched case to the next \<open>break\<close>, or into \<open>default\<close>.\<close>

fun exec_from :: "cond_oracle \<Rightarrow> citem list \<Rightarrow> rstate \<Rightarrow> rstate" where
  "exec_from orc [] s = s\<lparr>steps := butlast (steps s)\<rparr>"
| "exec_from orc (Case p ss es # cs) s = exec_stmts orc s ss"
| "exec_from orc (ElseCase p j # cs) s = exec_from orc cs (ElseBlock_step j s)"
| "exec_from orc (LoopRepeat p # cs) s = LoopRepeat_step s"
| "exec_from orc (MacroStart i p # cs) s = MacroStart_step s"
| "exec_from orc (MacroWait i p b m # cs) s = MacroWait_step i s"
| "exec_from orc (Space # cs) s = exec_from orc cs s"

section \<open>The driver loop\<close>

datatype outcome = Finished rstate | Running rstate

text \<open>One iteration of the \<open>while\<close> loop that \<open>RootBlock.packScript\<close> emits.\<close>

definition driver_iter :: "cond_oracle \<Rightarrow> citem list \<Rightarrow> rstate \<Rightarrow> outcome" where
  "driver_iter orc cs s =
     (let s' = (case dispatch cs (runKey (steps s)) of
                  None \<Rightarrow> s\<lparr>steps := butlast (steps s)\<rparr>
                | Some m \<Rightarrow> exec_from orc m s)
      in if steps s' = [] then Finished s'
         else Running (s'\<lparr>steps := upd_last rv_inc (steps s')\<rparr>))"

fun run :: "nat \<Rightarrow> cond_oracle \<Rightarrow> citem list \<Rightarrow> rstate \<Rightarrow> rstate option" where
  "run 0 orc cs s = None"
| "run (Suc f) orc cs s =
     (case driver_iter orc cs s of
        Finished s' \<Rightarrow> Some s'
      | Running s' \<Rightarrow> run f orc cs s')"

text \<open>
  \<open>__RegisterExecute__(id, steps, vars, isRestore)\<close>: a fresh run starts from the
  \<open>stepList = [1]\<close> default of the script wrapper in \<open>background.js\<close>; a restored run
  resumes one step after the persisted position.
\<close>

definition register_execute :: "rv list \<Rightarrow> bool \<Rightarrow> rv list" where
  "register_execute st isRestore = (if isRestore then upd_last rv_inc st else st)"

definition init_state :: "rv list \<Rightarrow> rstate" where
  "init_state st = \<lparr>steps = st, macro_executing = False, temp_macro = False, events = []\<rparr>"

text \<open>The dispatch table of a compiled root, as \<open>RootBlock.toScript([])\<close> builds it.\<close>

definition program :: "node \<Rightarrow> citem list option" where
  "program r = (case packScript r [] [] of Inl e \<Rightarrow> None | Inr (cs, _) \<Rightarrow> Some cs)"

definition run_script :: "nat \<Rightarrow> cond_oracle \<Rightarrow> node \<Rightarrow> event list option" where
  "run_script f orc r =
     (case program r of
        None \<Rightarrow> None
      | Some cs \<Rightarrow> map_option events (run f orc cs (init_state (register_execute [Num 1] False))))"

text \<open>
  The value of the condition \<open>IfExistBlock\<close> emits,
  \<open>v != null === c && v !== "" === c\<close>, for the variable's run-time value \<open>v\<close> and the
  raw enum value \<open>c\<close> interpolated as a literal: \<open>!=\<close>, \<open>!==\<close> and \<open>===\<close> have
  one precedence and associate to the left, so each comparison is tested against \<open>c\<close>
  on its own; a non-boolean \<open>c\<close> is never \<open>===\<close> to a boolean.
\<close>

definition IfExist_holds :: "jsval \<Rightarrow> jsval \<Rightarrow> bool" where
  "IfExist_holds v c =
     (case c of
        JBool b \<Rightarrow> (\<not> (v = JNull \<or> v = JUndefined)) = b \<and> (v \<noteq> JStr []) = b
      | _ \<Rightarrow> False)"

text \<open>
  Dispatch as the spec describes it: on the position itself rather than on its joined
  string (a reference for \<open>dispatch\<close>).
\<close>

fun dispatch_at :: "citem list \<Rightarrow> rv list \<Rightarrow> citem list option" where
  "dispatch_at [] st = None"
| "dispatch_at (c # cs) st =
     (case item_label c of
        Some p \<Rightarrow> (if map Num p = st then Some (c # cs) else dispatch_at cs st)
      | None \<Rightarrow> dispatch_at cs st)"

section \<open>Lemmas\<close>

subsection \<open>Dispatch keys\<close>

text \<open>
  A key is the tokens of the position joined by \<open>-\<close>; a token is a decimal integer, with
  a leading \<open>-\<close> when negative, or \<open>Infinity\<close>. A token has no \<open>-\<close> after its first
  character, so where one token ends is determined, and the key determines the position.
\<close>

definition sep_start :: "string \<Rightarrow> bool" where
  "sep_start s \<longleftrightarrow> s = [] \<or> hd s = CHR ''-''"

lemma not_digit_minus [simp]: "\<not> is_digit (CHR ''-'')"
  by (simp add: is_digit_def)

lemma takeWhile_nat_str:
  "sep_start s \<Longrightarrow> takeWhile is_digit (nat_str n @ s) = nat_str n"
  by (cases s) (auto simp: sep_start_def takeWhile_append2 nat_str_digits)

lemma nat_str_hd_digit: "is_digit (hd (nat_str n))"
  using nat_str_digits [of "hd (nat_str n)" n] nat_str_nonempty [of n] by simp

lemma nat_str_append_cancel:
  assumes "nat_str m @ s = nat_str n @ t" "sep_start s" "sep_start t"
  shows "m = n \<and> s = t"
proof -
  have "nat_str m = nat_str n"
    using takeWhile_nat_str [OF assms(2), of m] takeWhile_nat_str [OF assms(3), of n] assms(1)
    by simp
  with assms(1) show ?thesis by (simp add: nat_str_inj)
qed

lemma rv_str_cases:
  "(\<exists>n. rv_str a = nat_str n) \<or> (\<exists>n. rv_str a = CHR ''-'' # nat_str n) \<or> rv_str a = ''Infinity''"
  by (cases a) (auto simp: int_str_def)

lemma nat_str_append_neq:
  assumes "\<not> is_digit c"
  shows "nat_str n @ s \<noteq> c # t"
proof
  assume "nat_str n @ s = c # t"
  then have "hd (nat_str n) = c"
    using nat_str_nonempty [of n] by (cases "nat_str n") simp_all
  with nat_str_hd_digit [of n] assms show False by simp
qed

lemma not_digit_I [simp]: "\<not> is_digit (CHR ''I'')"
  by (simp add: is_digit_def)

lemma int_str_append_cancel:
  assumes eq: "int_str x @ s = int_str y @ t" and s: "sep_start s" and t: "sep_start t"
  shows "x = y \<and> s = t"
proof (cases "x < 0"; cases "y < 0")
  assume "x < 0" "y < 0"
  with eq have "nat_str (nat (- x)) @ s = nat_str (nat (- y)) @ t"
    by (simp add: int_str_def)
  from nat_str_append_cancel [OF this s t] \<open>x < 0\<close> \<open>y < 0\<close> show ?thesis
    by (simp add: eq_nat_nat_iff)
next
  assume "\<not> x < 0" "\<not> y < 0"
  with eq have "nat_str (nat x) @ s = nat_str (nat y) @ t"
    by (simp add: int_str_def)
  from nat_str_append_cancel [OF this s t] \<open>\<not> x < 0\<close> \<open>\<not> y < 0\<close> show ?thesis
    by (simp add: eq_nat_nat_iff)
next
  assume "x < 0" "\<not> y < 0"
  with eq have "nat_str (nat y) @ t = CHR ''-'' # (nat_str (nat (- x)) @ s)"
    by (simp add: int_str_def)
  with nat_str_append_neq [OF not_digit_minus] show ?thesis by blast
next
  assume "\<not> x < 0" "y < 0"
  with eq have "nat_str (nat x) @ s = CHR ''-'' # (nat_str (nat (- y)) @ t)"
    by (simp add: int_str_def)
  with nat_str_append_neq [OF not_digit_minus] show ?thesis by blast
qed

lemma int_str_append_neq_Infinity: "int_str x @ s \<noteq> ''Infinity'' @ t"
  using nat_str_append_neq [OF not_digit_I]
  by (simp add: int_str_def)

lemma rv_str_append_cancel:
  assumes eq: "rv_str a @ s = rv_str b @ t" and s: "sep_start s" and t: "sep_start t"
  shows "a = b \<and> s = t"
proof (cases a; cases b)
  fix x y assume "a = Num x" "b = Num y"
  with eq int_str_append_cancel [OF _ s t, of x y] show ?thesis by simp
next
  fix x assume "a = Num x" "b = Infinity"
  with eq int_str_append_neq_Infinity show ?thesis by simp
next
  fix y assume "a = Infinity" "b = Num y"
  with eq int_str_append_neq_Infinity [of y t s] show ?thesis by simp
next
  assume "a = Infinity" "b = Infinity"
  with eq show ?thesis by simp
qed

lemma runKey_Nil [simp]: "runKey [] = []"
  by (simp add: runKey_def)

lemma runKey_Cons:
  "runKey (a # st) = rv_str a @ (if st = [] then [] else CHR ''-'' # runKey st)"
  by (cases st) (simp_all add: runKey_def)

lemma sep_start_dash [simp]: "sep_start (if st = [] then [] else CHR ''-'' # r)"
  by (simp add: sep_start_def)

lemma rv_str_nonempty: "rv_str a \<noteq> []"
  by (cases a) (simp_all add: int_str_nonempty)

lemma runKey_inj: "runKey st = runKey st' \<Longrightarrow> st = st'"
proof (induction st arbitrary: st')
  case Nil
  then show ?case
    by (cases st') (simp_all add: runKey_Cons rv_str_nonempty)
next
  case (Cons a st)
  show ?case
  proof (cases st')
    case Nil
    with Cons.prems show ?thesis by (simp add: runKey_Cons rv_str_nonempty)
  next
    case (Cons b st'')
    with Cons.prems have "rv_str a @ (if st = [] then [] else CHR ''-'' # runKey st)
        = rv_str b @ (if st'' = [] then [] else CHR ''-'' # runKey st'')"
      by (simp add: runKey_Cons)
    from rv_str_append_cancel [OF this sep_start_dash sep_start_dash]
    have ab: "a = b" and rest: "(if st = [] then [] else CHR ''-'' # runKey st)
        = (if st'' = [] then [] else CHR ''-'' # runKey st'')" by auto
    have "runKey st = runKey st''"
      using rest by (auto split: if_splits simp: runKey_def)
    then have "st = st''" by (rule Cons.IH)
    with ab Cons show ?thesis by simp
  qed
qed

lemma runKey_Num: "runKey (map Num p) = stepKey p"
  by (simp add: runKey_def stepKey_def comp_def)

text \<open>
  C5. The switch compares strings, but the joined key of the live position equals a
  case's label exactly when the position is that label: string dispatch on
  \<open>stepList.join("-")\<close> is dispatch on the position, so no two distinct positions share
  a case (even with the \<open>-1\<close> skip marker and the \<open>Infinity\<close> sentinel).
\<close>

theorem dispatch_by_position:
  "(runKey st = stepKey p \<longleftrightarrow> st = map Num p) \<and> dispatch cs (runKey st) = dispatch_at cs st"
proof -
  have key: "\<And>p. runKey st = stepKey p \<longleftrightarrow> st = map Num p"
    using runKey_inj runKey_Num by metis
  have key': "\<And>p. stepKey p = runKey st \<longleftrightarrow> map Num p = st"
    using key by metis
  have "dispatch cs (runKey st) = dispatch_at cs st"
    by (induction cs) (simp_all add: key' split: option.splits)
  with key show ?thesis by blast
qed

text \<open>
  C6. The "does not exist" option of \<open>IfExistBlock\<close> can never fire. With the
  condition attribute \<open>false\<close> the block emits
  \<open>v != null === false && v !== "" === false\<close>, which needs \<open>v\<close> to be null or
  undefined and at the same time the empty string; with \<open>true\<close> it holds exactly for a
  value that is neither null, undefined nor empty.
\<close>

theorem if_exist_absent_never_holds:
  "IfExistBlock_condition
       (Node i IfExistBlock [(''variable'', JStr x), (''condition'', JBool False)] al [] cs)
     = Inr (''__VAR__.'' @ x @ '' != null === false && __VAR__.'' @ x @ '' !== \"\" === false'')
   \<and> \<not> IfExist_holds v (JBool False)
   \<and> (IfExist_holds v (JBool True) \<longleftrightarrow> v \<notin> {JNull, JUndefined, JStr []})"
  by (auto simp: IfExistBlock_condition_def with_attrs_def parseScriptAttribute_def get_attr_def
      IfExistBlock_defaultAttr_def IfExist_holds_def)

end
