(* ===== verification/Tree.thy ===== *)
theory Tree
  imports Blocks
begin

text \<open>
  The block tree of \<open>src/src/classes/Block.ts\<close> as an arena: a block is a handle
  (\<open>bid\<close>) into a list of objects, and every field that holds a \<open>Block\<close> reference
  (\<open>_parent\<close>, \<open>_beforeBlock\<close>, \<open>_afterBlock\<close>, the values of \<open>_children\<close>, the
  \<open>_ifBlock\<close>/\<open>_loopBlock\<close> of an end marker and the \<open>_endIfBlock\<close>/\<open>_endLoopBlock\<close> of
  a compound block) holds a handle. The \<open>_children\<close> object is the list of its keys in
  insertion order, which is how \<open>Object.values\<close> enumerates non-numeric keys.

  The accessors are the class getters and setters: an end marker (\<open>EndIfBlock\<close>,
  \<open>EndLoopBlock\<close>, recognised by its owner handle) answers \<open>parent\<close>, \<open>beforeBlock\<close>
  and \<open>afterBlock\<close> with its owner's fields and throws on every setter. The structural
  methods (\<open>unlink\<close>, \<open>addBeforeBlock\<close>, \<open>addAfterBlock\<close>, \<open>addBlockBefore\<close>,
  \<open>addBlockAfter\<close>, \<open>pushChild\<close>, \<open>unshiftChild\<close>) are translated statement by
  statement, with their overrides, in an exception monad over the arena: a thrown error
  keeps the writes made before it, as in JavaScript. Dereferencing \<open>null\<close> is
  \<open>TypeError\<close>.
\<close>

section \<open>Objects and the arena\<close>

type_synonym bid = nat

record bobj =
  bkind :: kind
  bparent :: "bid option"
  bbefore :: "bid option"
  bafter :: "bid option"
  bchildren :: "bid list"
  bowner :: "bid option"
  bmarker :: "bid option"

type_synonym arena = "bobj list"

datatype terror = TypeError | ReadOnly string

type_synonym 'a tres = "(terror + 'a) \<times> arena"

definition tret :: "'a \<Rightarrow> arena \<Rightarrow> 'a tres" where
  "tret x h = (Inr x, h)"

definition tbind :: "(arena \<Rightarrow> 'a tres) \<Rightarrow> ('a \<Rightarrow> arena \<Rightarrow> 'b tres) \<Rightarrow> arena \<Rightarrow> 'b tres" where
  "tbind m f h = (case m h of (Inl e, h') \<Rightarrow> (Inl e, h') | (Inr x, h') \<Rightarrow> f x h')"

definition tthrow :: "terror \<Rightarrow> arena \<Rightarrow> 'a tres" where
  "tthrow e h = (Inl e, h)"

section \<open>Getters and setters\<close>

text \<open>
  \<open>get parent\<close>, \<open>get beforeBlock\<close>, \<open>get afterBlock\<close>: an end marker reads its owner's
  fields (\<open>this.ifBlock.parent\<close>, ...), every other block its own.
\<close>

definition get_parent :: "arena \<Rightarrow> bid \<Rightarrow> bid option" where
  "get_parent h b = (case bowner (h ! b) of Some ow \<Rightarrow> bparent (h ! ow) | None \<Rightarrow> bparent (h ! b))"

definition get_before :: "arena \<Rightarrow> bid \<Rightarrow> bid option" where
  "get_before h b = (case bowner (h ! b) of Some ow \<Rightarrow> bbefore (h ! ow) | None \<Rightarrow> bbefore (h ! b))"

definition get_after :: "arena \<Rightarrow> bid \<Rightarrow> bid option" where
  "get_after h b = (case bowner (h ! b) of Some ow \<Rightarrow> bafter (h ! ow) | None \<Rightarrow> bafter (h ! b))"

text \<open>The setters; on an end marker they throw \<open>"EndIfBlock.parent is readonly"\<close> etc.\<close>

definition set_parent :: "bid \<Rightarrow> bid option \<Rightarrow> arena \<Rightarrow> unit tres" where
  "set_parent b v h =
     (if bowner (h ! b) \<noteq> None then tthrow (ReadOnly ''parent'') h
      else tret () (h[b := (h ! b)\<lparr>bparent := v\<rparr>]))"

definition set_before :: "bid \<Rightarrow> bid option \<Rightarrow> arena \<Rightarrow> unit tres" where
  "set_before b v h =
     (if bowner (h ! b) \<noteq> None then tthrow (ReadOnly ''beforeBlock'') h
      else tret () (h[b := (h ! b)\<lparr>bbefore := v\<rparr>]))"

definition set_after :: "bid \<Rightarrow> bid option \<Rightarrow> arena \<Rightarrow> unit tres" where
  "set_after b v h =
     (if bowner (h ! b) \<noteq> None then tthrow (ReadOnly ''afterBlock'') h
      else tret () (h[b := (h ! b)\<lparr>bafter := v\<rparr>]))"

text \<open>\<open>setChild(child)\<close>: \<open>this._children[child.id] = child\<close>; \<open>delChild(id)\<close>: \<open>delete\<close>.\<close>

definition setChild :: "bid \<Rightarrow> bid \<Rightarrow> arena \<Rightarrow> unit tres" where
  "setChild p c h =
     tret () (h[p := (h ! p)\<lparr>bchildren := (let cs = bchildren (h ! p) in
                                          if c \<in> set cs then cs else cs @ [c])\<rparr>])"

definition delChild :: "bid \<Rightarrow> bid \<Rightarrow> arena \<Rightarrow> unit tres" where
  "delChild p c h = tret () (h[p := (h ! p)\<lparr>bchildren := removeAll c (bchildren (h ! p))\<rparr>])"

text \<open>
  \<open>get firstChild\<close> / \<open>get lastChild\<close>: the first child, in \<open>_children\<close> order, whose
  \<open>beforeBlock\<close> (\<open>afterBlock\<close>) is \<open>null\<close>.
\<close>

definition firstChild :: "arena \<Rightarrow> bid \<Rightarrow> bid option" where
  "firstChild h b = find (\<lambda>c. get_before h c = None) (bchildren (h ! b))"

definition lastChild :: "arena \<Rightarrow> bid \<Rightarrow> bid option" where
  "lastChild h b = find (\<lambda>c. get_after h c = None) (bchildren (h ! b))"

section \<open>Structural operations\<close>

text \<open>\<open>Block.unlink()\<close>; an end marker's \<open>unlink\<close> unlinks its owner.\<close>

definition unlink_base :: "bid \<Rightarrow> arena \<Rightarrow> unit tres" where
  "unlink_base b =
     tbind (\<lambda>h. case get_parent h b of None \<Rightarrow> tret () h | Some p \<Rightarrow> delChild p b h) (\<lambda>_.
     tbind (set_parent b None) (\<lambda>_.
     tbind (\<lambda>h. case get_before h b of None \<Rightarrow> tret () h | Some a \<Rightarrow> set_after a (get_after h b) h) (\<lambda>_.
     tbind (\<lambda>h. case get_after h b of None \<Rightarrow> tret () h | Some c \<Rightarrow> set_before c (get_before h b) h) (\<lambda>_.
     tbind (set_before b None) (\<lambda>_.
     set_after b None)))))"

definition unlink :: "bid \<Rightarrow> arena \<Rightarrow> unit tres" where
  "unlink b h = (case bowner (h ! b) of Some ow \<Rightarrow> unlink_base ow h | None \<Rightarrow> unlink_base b h)"

text \<open>
  \<open>Block.addBeforeBlock(block)\<close>: detach \<open>this\<close>, take \<open>block\<close>'s parent (\<open>TypeError\<close>
  when it has none), and splice \<open>this\<close> in before \<open>block\<close>. An end marker forwards to its
  owner.
\<close>

definition addBeforeBlock_base :: "bid \<Rightarrow> bid \<Rightarrow> arena \<Rightarrow> unit tres" where
  "addBeforeBlock_base b t =
     tbind (unlink b) (\<lambda>_.
     tbind (\<lambda>h. set_parent b (get_parent h t) h) (\<lambda>_.
     tbind (\<lambda>h. case get_parent h b of None \<Rightarrow> tthrow TypeError h | Some p \<Rightarrow> setChild p b h) (\<lambda>_.
     tbind (set_after b (Some t)) (\<lambda>_.
     tbind (\<lambda>h. set_before b (get_before h t) h) (\<lambda>_.
     tbind (\<lambda>h. case get_before h t of None \<Rightarrow> tret () h | Some a \<Rightarrow> set_after a (Some b) h) (\<lambda>_.
     set_before t (Some b)))))))"

definition addBeforeBlock :: "bid \<Rightarrow> bid \<Rightarrow> arena \<Rightarrow> unit tres" where
  "addBeforeBlock b t h =
     (case bowner (h ! b) of Some ow \<Rightarrow> addBeforeBlock_base ow t h | None \<Rightarrow> addBeforeBlock_base b t h)"

text \<open>\<open>Block.addAfterBlock(block)\<close>, symmetrically; an end marker forwards to its owner.\<close>

definition addAfterBlock_base :: "bid \<Rightarrow> bid \<Rightarrow> arena \<Rightarrow> unit tres" where
  "addAfterBlock_base b t =
     tbind (unlink b) (\<lambda>_.
     tbind (\<lambda>h. set_parent b (get_parent h t) h) (\<lambda>_.
     tbind (\<lambda>h. case get_parent h b of None \<Rightarrow> tthrow TypeError h | Some p \<Rightarrow> setChild p b h) (\<lambda>_.
     tbind (set_before b (Some t)) (\<lambda>_.
     tbind (\<lambda>h. set_after b (get_after h t) h) (\<lambda>_.
     tbind (\<lambda>h. case get_after h t of None \<Rightarrow> tret () h | Some c \<Rightarrow> set_before c (Some b) h) (\<lambda>_.
     set_after t (Some b)))))))"

definition addAfterBlock :: "bid \<Rightarrow> bid \<Rightarrow> arena \<Rightarrow> unit tres" where
  "addAfterBlock b t h =
     (case bowner (h ! b) of Some ow \<Rightarrow> addAfterBlock_base ow t h | None \<Rightarrow> addAfterBlock_base b t h)"

text \<open>
  \<open>Block.pushChild(block)\<close>: detach \<open>block\<close>, then put it after the last child, or make it
  the only child.
\<close>

definition pushChild :: "bid \<Rightarrow> bid \<Rightarrow> arena \<Rightarrow> unit tres" where
  "pushChild p b =
     tbind (unlink b) (\<lambda>_ h.
       case lastChild h p of
         Some l \<Rightarrow> addAfterBlock b l h
       | None \<Rightarrow> tbind (set_parent b (Some p)) (\<lambda>_. setChild p b) h)"

text \<open>
  \<open>addBlockBefore(block)\<close>: \<open>block.addBeforeBlock(this)\<close>; an end marker instead pushes
  \<open>block\<close> as the last child of its owner.
\<close>

definition addBlockBefore :: "bid \<Rightarrow> bid \<Rightarrow> arena \<Rightarrow> unit tres" where
  "addBlockBefore t b h =
     (case bowner (h ! t) of Some ow \<Rightarrow> pushChild ow b h | None \<Rightarrow> addBeforeBlock b t h)"

text \<open>\<open>Block.unshiftChild(block)\<close>: detach \<open>block\<close>, then put it before the first child.\<close>

definition unshiftChild :: "bid \<Rightarrow> bid \<Rightarrow> arena \<Rightarrow> unit tres" where
  "unshiftChild p b =
     tbind (unlink b) (\<lambda>_ h.
       case firstChild h p of
         Some f \<Rightarrow> addBlockBefore f b h
       | None \<Rightarrow> tbind (set_parent b (Some p)) (\<lambda>_. setChild p b) h)"

text \<open>
  \<open>addBlockAfter(block)\<close>: \<open>block.addAfterBlock(this)\<close>; a conditional or loop block
  instead makes \<open>block\<close> its first child, and an end marker puts \<open>block\<close> after its owner.
\<close>

definition addBlockAfter :: "bid \<Rightarrow> bid \<Rightarrow> arena \<Rightarrow> unit tres" where
  "addBlockAfter t b h =
     (case bowner (h ! t) of
        Some ow \<Rightarrow> addAfterBlock b ow h
      | None \<Rightarrow> (if is_if (bkind (h ! t)) \<or> is_loop (bkind (h ! t)) then unshiftChild t b h
                 else addAfterBlock b t h))"

section \<open>The sibling-list invariant\<close>

text \<open>
  The abstract view of a parent's children is a list in sibling order. \<open>nxt xs a\<close> and
  \<open>prv xs a\<close> are the neighbours of \<open>a\<close> in \<open>xs\<close>, i.e. what \<open>afterBlock\<close> and
  \<open>beforeBlock\<close> must hold.
\<close>

fun nxt :: "'a list \<Rightarrow> 'a \<Rightarrow> 'a option" where
  "nxt [] a = None"
| "nxt [x] a = None"
| "nxt (x # y # ys) a = (if a = x then Some y else nxt (y # ys) a)"

definition prv :: "'a list \<Rightarrow> 'a \<Rightarrow> 'a option" where
  "prv xs a = nxt (rev xs) a"

text \<open>
  Following \<open>afterBlock\<close> from a block, at most \<open>n\<close> steps: the loop
  \<open>while (child) { ...; child = child.afterBlock; }\<close> of \<open>flatChildren\<close> and
  \<open>packScript\<close>, bounded so that it is total on any arena.
\<close>

fun walk :: "arena \<Rightarrow> nat \<Rightarrow> bid option \<Rightarrow> bid list" where
  "walk h 0 x = []"
| "walk h (Suc n) None = []"
| "walk h (Suc n) (Some b) = b # walk h n (get_after h b)"

definition order :: "arena \<Rightarrow> bid \<Rightarrow> bid list" where
  "order h p = walk h (length (bchildren (h ! p))) (firstChild h p)"

text \<open>
  \<open>rep h chl\<close>: the arena \<open>h\<close> represents the ordered child lists \<open>chl\<close>. Each list holds
  exactly the keys of the parent's \<open>_children\<close>, without repetition; each child is an
  ordinary block whose \<open>_parent\<close> is that parent and whose sibling pointers are its
  neighbours in the list; a block with no parent has no siblings; a block's parent lists
  it; an end marker's owner is an ordinary block.
\<close>

definition rep :: "arena \<Rightarrow> (bid \<Rightarrow> bid list) \<Rightarrow> bool" where
  "rep h chl \<longleftrightarrow>
     (\<forall>p < length h. distinct (chl p) \<and> set (chl p) = set (bchildren (h ! p))
        \<and> (\<forall>c \<in> set (chl p). c < length h \<and> bowner (h ! c) = None \<and> bparent (h ! c) = Some p
                            \<and> bbefore (h ! c) = prv (chl p) c \<and> bafter (h ! c) = nxt (chl p) c))
   \<and> (\<forall>c < length h. bowner (h ! c) = None \<longrightarrow>
        (case bparent (h ! c) of
           None \<Rightarrow> bbefore (h ! c) = None \<and> bafter (h ! c) = None
         | Some p \<Rightarrow> p < length h \<and> c \<in> set (chl p)))
   \<and> (\<forall>c < length h. case bowner (h ! c) of
                        None \<Rightarrow> True
                      | Some ow \<Rightarrow> ow < length h \<and> bowner (h ! ow) = None)"

text \<open>The invariant, decidable on a concrete arena: the arena represents its own walks.\<close>

definition wf_tree :: "arena \<Rightarrow> bool" where
  "wf_tree h \<longleftrightarrow> rep h (order h)"

text \<open>The list operations the structural methods implement.\<close>

definition ins_before :: "'a \<Rightarrow> 'a \<Rightarrow> 'a list \<Rightarrow> 'a list" where
  "ins_before t b xs = concat (map (\<lambda>x. if x = t then [b, x] else [x]) xs)"

definition ins_after :: "'a \<Rightarrow> 'a \<Rightarrow> 'a list \<Rightarrow> 'a list" where
  "ins_after t b xs = concat (map (\<lambda>x. if x = t then [x, b] else [x]) xs)"

section \<open>Sequences of structural operations\<close>

text \<open>
  The structural methods a caller (the editor) invokes, as a datatype of operations and
  their execution; an operation is well-aimed (\<open>op_ok\<close>) when the blocks it names exist,
  are ordinary blocks (not end markers), and, for \<open>addBeforeBlock\<close>/\<open>addAfterBlock\<close>, the
  target is another block that has a parent. \<open>op_spec\<close> is what each does to the ordered
  child lists: detach the block from wherever it is, then insert it.
\<close>

datatype tree_op =
    Unlink bid
  | PushChild bid bid
  | UnshiftChild bid bid
  | AddBeforeBlock bid bid
  | AddAfterBlock bid bid

fun tree_step :: "tree_op \<Rightarrow> arena \<Rightarrow> unit tres" where
  "tree_step (Unlink b) = unlink b"
| "tree_step (PushChild p b) = pushChild p b"
| "tree_step (UnshiftChild p b) = unshiftChild p b"
| "tree_step (AddBeforeBlock b t) = addBeforeBlock b t"
| "tree_step (AddAfterBlock b t) = addAfterBlock b t"

definition ordinary :: "arena \<Rightarrow> bid \<Rightarrow> bool" where
  "ordinary h b \<longleftrightarrow> b < length h \<and> bowner (h ! b) = None"

fun op_ok :: "arena \<Rightarrow> tree_op \<Rightarrow> bool" where
  "op_ok h (Unlink b) \<longleftrightarrow> ordinary h b"
| "op_ok h (PushChild p b) \<longleftrightarrow> p < length h \<and> ordinary h b"
| "op_ok h (UnshiftChild p b) \<longleftrightarrow> p < length h \<and> ordinary h b"
| "op_ok h (AddBeforeBlock b t) \<longleftrightarrow> ordinary h b \<and> ordinary h t \<and> t \<noteq> b \<and> bparent (h ! t) \<noteq> None"
| "op_ok h (AddAfterBlock b t) \<longleftrightarrow> ordinary h b \<and> ordinary h t \<and> t \<noteq> b \<and> bparent (h ! t) \<noteq> None"

fun op_spec :: "tree_op \<Rightarrow> arena \<Rightarrow> bid \<Rightarrow> bid list" where
  "op_spec (Unlink b) h q = removeAll b (order h q)"
| "op_spec (PushChild p b) h q =
     (if q = p then removeAll b (order h q) @ [b] else removeAll b (order h q))"
| "op_spec (UnshiftChild p b) h q =
     (if q = p then b # removeAll b (order h q) else removeAll b (order h q))"
| "op_spec (AddBeforeBlock b t) h q =
     (if bparent (h ! t) = Some q then ins_before t b (removeAll b (order h q))
      else removeAll b (order h q))"
| "op_spec (AddAfterBlock b t) h q =
     (if bparent (h ! t) = Some q then ins_after t b (removeAll b (order h q))
      else removeAll b (order h q))"

text \<open>The arenas reachable from \<open>h\<close> by well-aimed operations that return normally.\<close>

inductive tree_reach :: "arena \<Rightarrow> arena \<Rightarrow> bool" where
  refl: "tree_reach h h"
| step: "tree_reach h h1 \<Longrightarrow> op_ok h1 op \<Longrightarrow> tree_step op h1 = (Inr (), h2) \<Longrightarrow> tree_reach h h2"

section \<open>Example arenas\<close>

text \<open>A root (0) with two log blocks (1, 2) in sibling order.\<close>

definition demo_arena :: arena where
  "demo_arena =
     [\<lparr>bkind = RootBlock, bparent = None, bbefore = None, bafter = None, bchildren = [1, 2],
        bowner = None, bmarker = None\<rparr>,
      \<lparr>bkind = LogBlock, bparent = Some 0, bbefore = None, bafter = Some 2, bchildren = [],
        bowner = None, bmarker = None\<rparr>,
      \<lparr>bkind = LogBlock, bparent = Some 0, bbefore = Some 1, bafter = None, bchildren = [],
        bowner = None, bmarker = None\<rparr>]"

section \<open>Lemmas\<close>

subsection \<open>Neighbours in a list\<close>

named_theorems nb_simps "neighbour equations of the list operations"

lemma nxt_Cons:
  "nxt (x # xs) a = (if a = x then (case xs of [] \<Rightarrow> None | y # _ \<Rightarrow> Some y) else nxt xs a)"
  by (cases xs) auto

declare nxt.simps(3) [simp del]

lemma nxt_notin [simp]: "a \<notin> set xs \<Longrightarrow> nxt xs a = None"
  by (induction xs) (auto simp: nxt_Cons)

lemma nxt_SomeD: "nxt xs a = Some b \<Longrightarrow> a \<in> set xs \<and> b \<in> set xs"
  by (induction xs) (auto simp: nxt_Cons split: if_splits list.splits)

lemma prv_SomeD: "prv xs a = Some b \<Longrightarrow> a \<in> set xs \<and> b \<in> set xs"
  using nxt_SomeD [of "rev xs" a b] by (simp add: prv_def)

lemma prv_notin [simp]: "a \<notin> set xs \<Longrightarrow> prv xs a = None"
  by (simp add: prv_def)

lemma nxt_adj:
  "distinct xs \<Longrightarrow> nxt xs a = Some b \<longleftrightarrow> (\<exists>ys zs. xs = ys @ a # b # zs)"
proof (induction xs)
  case Nil
  then show ?case by simp
next
  case (Cons x xs)
  show ?case
  proof (cases "a = x")
    case True
    with Cons.prems show ?thesis
      by (cases xs) (auto simp: nxt_Cons Cons_eq_append_conv)
  next
    case False
    with Cons show ?thesis
      by (auto simp: nxt_Cons Cons_eq_append_conv)
  qed
qed

lemma nxt_prv: "distinct xs \<Longrightarrow> nxt xs a = Some b \<longleftrightarrow> prv xs b = Some a"
proof -
  assume d: "distinct xs"
  have "(\<exists>ys zs. rev xs = ys @ b # a # zs) \<longleftrightarrow> (\<exists>ys zs. xs = ys @ a # b # zs)"
    by (metis append.assoc append_Cons append_Nil rev.simps(2) rev_append rev_rev_ident)
  with d show ?thesis by (simp add: prv_def nxt_adj)
qed

lemma nxt_at:
  "distinct (ys @ x # zs) \<Longrightarrow> nxt (ys @ x # zs) x = (case zs of [] \<Rightarrow> None | z # _ \<Rightarrow> Some z)"
proof (induction ys)
  case Nil
  then show ?case by (simp add: nxt_Cons)
next
  case (Cons y ys)
  then show ?case by (auto simp: nxt_Cons)
qed

lemma prv_nxt_distinct:
  assumes "distinct xs" "prv xs b = Some a" "nxt xs b = Some c"
  shows "a \<noteq> c"
proof
  assume "a = c"
  from assms(1,2) have "nxt xs a = Some b" by (simp add: nxt_prv)
  with assms(1) obtain ys zs where xs: "xs = ys @ a # b # zs" using nxt_adj by metis
  with assms(1) have "nxt xs b = (case zs of [] \<Rightarrow> None | z # _ \<Rightarrow> Some z)"
    using nxt_at [of "ys @ [a]" b zs] by simp
  with assms(3) \<open>a = c\<close> obtain zs' where "zs = a # zs'" by (cases zs) auto
  with xs assms(1) show False by simp
qed

lemma nxt_None_iff:
  "distinct xs \<Longrightarrow> a \<in> set xs \<Longrightarrow> nxt xs a = None \<longleftrightarrow> a = last xs"
proof (induction xs)
  case Nil
  then show ?case by simp
next
  case (Cons x xs)
  show ?case
  proof (cases "a = x")
    case True
    with Cons.prems show ?thesis by (cases xs) (auto simp: nxt_Cons)
  next
    case False
    with Cons have "xs \<noteq> []" "nxt xs a = None \<longleftrightarrow> a = last xs" by auto
    with False show ?thesis by (simp add: nxt_Cons)
  qed
qed

lemma prv_None_iff:
  "distinct xs \<Longrightarrow> a \<in> set xs \<Longrightarrow> prv xs a = None \<longleftrightarrow> a = hd xs"
  using nxt_None_iff [of "rev xs" a] by (simp add: prv_def last_rev)

lemma nxt_removeAll [nb_simps]:
  "distinct xs \<Longrightarrow> a \<noteq> b \<Longrightarrow>
   nxt (removeAll b xs) a = (if nxt xs a = Some b then nxt xs b else nxt xs a)"
proof (induction xs)
  case Nil
  then show ?case by simp
next
  case (Cons x xs)
  show ?case
  proof (cases "x = b")
    case True
    with Cons.prems have "b \<notin> set xs" "removeAll b xs = xs" by auto
    with True Cons.prems show ?thesis by (auto simp: nxt_Cons dest: nxt_SomeD)
  next
    case False
    show ?thesis
    proof (cases "a = x")
      case True
      with False Cons.prems show ?thesis
        by (cases xs) (auto simp: nxt_Cons)
    next
      case a: False
      with False Cons show ?thesis by (simp add: nxt_Cons)
    qed
  qed
qed

lemma rev_removeAll: "rev (removeAll b xs) = removeAll b (rev xs)"
  by (simp add: removeAll_filter_not_eq rev_filter)

lemma prv_removeAll [nb_simps]:
  "distinct xs \<Longrightarrow> a \<noteq> b \<Longrightarrow>
   prv (removeAll b xs) a = (if prv xs a = Some b then prv xs b else prv xs a)"
  using nxt_removeAll [of "rev xs" a b] by (simp add: prv_def rev_removeAll [symmetric])

lemma ins_before_simps [simp]:
  "ins_before t b [] = []"
  "ins_before t b (x # xs) = (if x = t then [b, x] else [x]) @ ins_before t b xs"
  by (simp_all add: ins_before_def)

lemma ins_after_simps [simp]:
  "ins_after t b [] = []"
  "ins_after t b (x # xs) = (if x = t then [x, b] else [x]) @ ins_after t b xs"
  by (simp_all add: ins_after_def)

lemma ins_after_append [simp]: "ins_after t b (xs @ ys) = ins_after t b xs @ ins_after t b ys"
  by (simp add: ins_after_def)

lemma ins_before_notin [simp]: "t \<notin> set xs \<Longrightarrow> ins_before t b xs = xs"
  by (induction xs) auto

lemma ins_after_notin [simp]: "t \<notin> set xs \<Longrightarrow> ins_after t b xs = xs"
  by (induction xs) auto

lemma rev_ins_before: "rev (ins_before t b xs) = ins_after t b (rev xs)"
  by (induction xs) auto

lemma set_ins_before [simp]:
  "set (ins_before t b xs) = (if t \<in> set xs then insert b (set xs) else set xs)"
  by (induction xs) auto

lemma set_ins_after [simp]:
  "set (ins_after t b xs) = (if t \<in> set xs then insert b (set xs) else set xs)"
  by (induction xs) auto

lemma distinct_ins_before [simp]:
  "distinct xs \<Longrightarrow> b \<notin> set xs \<Longrightarrow> distinct (ins_before t b xs)"
  by (induction xs) auto

lemma distinct_ins_after [simp]:
  "distinct xs \<Longrightarrow> b \<notin> set xs \<Longrightarrow> distinct (ins_after t b xs)"
  by (induction xs) auto

lemma ins_before_hd: "distinct xs \<Longrightarrow> xs \<noteq> [] \<Longrightarrow> ins_before (hd xs) b xs = b # xs"
  by (cases xs) auto

lemma ins_after_last: "distinct xs \<Longrightarrow> xs \<noteq> [] \<Longrightarrow> ins_after (last xs) b xs = xs @ [b]"
  by (induction xs) auto

lemma nxt_ins_before [nb_simps]:
  "distinct xs \<Longrightarrow> t \<in> set xs \<Longrightarrow> b \<notin> set xs \<Longrightarrow>
   nxt (ins_before t b xs) a = (if a = b then Some t else if nxt xs a = Some t then Some b else nxt xs a)"
proof (induction xs)
  case Nil
  then show ?case by simp
next
  case (Cons x xs)
  show ?case
  proof (cases "x = t")
    case True
    with Cons.prems have ins: "ins_before t b (x # xs) = b # t # xs" and "a = b \<or> a \<noteq> b"
      by auto
    have ne: "nxt (t # xs) a \<noteq> Some t"
      using Cons.prems True nxt_SomeD [of xs a t] by (cases xs) (auto simp: nxt_Cons)
    have "nxt (b # t # xs) a = (if a = b then Some t else nxt (t # xs) a)"
      using Cons.prems True by (simp add: nxt_Cons)
    with ins True ne show ?thesis by simp
  next
    case False
    with Cons.prems have t: "t \<in> set xs" by simp
    then obtain y ys where xs: "xs = y # ys" by (cases xs) auto
    show ?thesis
    proof (cases "a = x")
      case True
      with False Cons.prems xs show ?thesis by (auto simp: nxt_Cons)
    next
      case a: False
      have "nxt (ins_before t b xs) a =
              (if a = b then Some t else if nxt xs a = Some t then Some b else nxt xs a)"
        using Cons.IH Cons.prems t by simp
      with False a show ?thesis by (simp add: nxt_Cons)
    qed
  qed
qed

lemma nxt_ins_after [nb_simps]:
  "distinct xs \<Longrightarrow> t \<in> set xs \<Longrightarrow> b \<notin> set xs \<Longrightarrow>
   nxt (ins_after t b xs) a = (if a = t then Some b else if a = b then nxt xs t else nxt xs a)"
proof (induction xs)
  case Nil
  then show ?case by simp
next
  case (Cons x xs)
  show ?case
  proof (cases "x = t")
    case True
    with Cons.prems show ?thesis by (cases xs) (auto simp: nxt_Cons)
  next
    case False
    with Cons.prems have t: "t \<in> set xs" by simp
    then obtain y ys where xs: "xs = y # ys" by (cases xs) auto
    show ?thesis
    proof (cases "a = x")
      case True
      with False Cons.prems xs show ?thesis by (auto simp: nxt_Cons)
    next
      case a: False
      with False Cons t show ?thesis by (auto simp: nxt_Cons)
    qed
  qed
qed

lemma prv_ins_before [nb_simps]:
  "distinct xs \<Longrightarrow> t \<in> set xs \<Longrightarrow> b \<notin> set xs \<Longrightarrow>
   prv (ins_before t b xs) a = (if a = t then Some b else if a = b then prv xs t else prv xs a)"
  using nxt_ins_after [of "rev xs" t b a] by (simp add: prv_def rev_ins_before)

lemma prv_ins_after [nb_simps]:
  "distinct xs \<Longrightarrow> t \<in> set xs \<Longrightarrow> b \<notin> set xs \<Longrightarrow>
   prv (ins_after t b xs) a = (if a = b then Some t else if prv xs a = Some t then Some b else prv xs a)"
proof -
  assume "distinct xs" "t \<in> set xs" "b \<notin> set xs"
  moreover have "rev (ins_after t b xs) = ins_before t b (rev xs)"
    using rev_ins_before [of t b "rev xs"] by (metis rev_rev_ident)
  ultimately show ?thesis using nxt_ins_before [of "rev xs" t b a] by (simp add: prv_def)
qed

lemma nxt_neq: "distinct xs \<Longrightarrow> nxt xs a \<noteq> Some a"
  using nxt_adj [of xs a a] by (auto simp: distinct_append)

lemma prv_neq: "distinct xs \<Longrightarrow> prv xs a \<noteq> Some a"
  using nxt_neq [of "rev xs" a] by (simp add: prv_def)

lemma find_unique:
  "x \<in> set xs \<Longrightarrow> (\<And>y. y \<in> set xs \<Longrightarrow> P y \<longleftrightarrow> y = x) \<Longrightarrow> find P xs = Some x"
  by (induction xs) auto

lemma find_none: "(\<And>y. y \<in> set xs \<Longrightarrow> \<not> P y) \<Longrightarrow> find P xs = None"
  by (induction xs) auto

subsection \<open>The monad and the accessors\<close>

lemma tbind_Inr [simp]: "m h = (Inr x, h') \<Longrightarrow> tbind m f h = f x h'"
  by (simp add: tbind_def)

lemma tbind_Inl [simp]: "m h = (Inl e, h') \<Longrightarrow> tbind m f h = (Inl e, h')"
  by (simp add: tbind_def)

lemma tret_tthrow_simps [simp]: "tret x h = (Inr x, h)" "tthrow e h = (Inl e, h)"
  by (simp_all add: tret_def tthrow_def)

lemma setters_plain:
  "bowner (h ! b) = None \<Longrightarrow> set_parent b v h = (Inr (), h[b := (h ! b)\<lparr>bparent := v\<rparr>])"
  "bowner (h ! b) = None \<Longrightarrow> set_before b v h = (Inr (), h[b := (h ! b)\<lparr>bbefore := v\<rparr>])"
  "bowner (h ! b) = None \<Longrightarrow> set_after b v h = (Inr (), h[b := (h ! b)\<lparr>bafter := v\<rparr>])"
  by (simp_all add: set_parent_def set_before_def set_after_def)

lemma getters_plain:
  "bowner (h ! b) = None \<Longrightarrow> get_parent h b = bparent (h ! b)"
  "bowner (h ! b) = None \<Longrightarrow> get_before h b = bbefore (h ! b)"
  "bowner (h ! b) = None \<Longrightarrow> get_after h b = bafter (h ! b)"
  by (simp_all add: get_parent_def get_before_def get_after_def)

subsection \<open>What the representation gives\<close>

lemma rep_child:
  assumes "rep h chl" "p < length h" "c \<in> set (chl p)"
  shows "c < length h" "bowner (h ! c) = None" "bparent (h ! c) = Some p"
    "bbefore (h ! c) = prv (chl p) c" "bafter (h ! c) = nxt (chl p) c"
  using assms by (auto simp: rep_def)

lemma rep_distinct:
  "rep h chl \<Longrightarrow> p < length h \<Longrightarrow> distinct (chl p)"
  "rep h chl \<Longrightarrow> p < length h \<Longrightarrow> set (chl p) = set (bchildren (h ! p))"
  by (auto simp: rep_def)

lemma rep_parent_case:
  "rep h chl \<Longrightarrow> c < length h \<Longrightarrow> bowner (h ! c) = None \<Longrightarrow>
   (case bparent (h ! c) of
      None \<Rightarrow> bbefore (h ! c) = None \<and> bafter (h ! c) = None
    | Some p \<Rightarrow> p < length h \<and> c \<in> set (chl p))"
  unfolding rep_def by blast

lemma rep_parent:
  assumes "rep h chl" "c < length h" "bowner (h ! c) = None"
  shows "bparent (h ! c) = Some p \<Longrightarrow> p < length h \<and> c \<in> set (chl p)"
    and "bparent (h ! c) = None \<Longrightarrow> bbefore (h ! c) = None \<and> bafter (h ! c) = None"
  using rep_parent_case [OF assms] by auto

lemma rep_owner:
  "rep h chl \<Longrightarrow> c < length h \<Longrightarrow> bowner (h ! c) = Some ow \<Longrightarrow> ow < length h \<and> bowner (h ! ow) = None"
  by (force simp: rep_def)

lemma rep_unique_parent:
  "rep h chl \<Longrightarrow> p < length h \<Longrightarrow> q < length h \<Longrightarrow> c \<in> set (chl p) \<Longrightarrow> c \<in> set (chl q) \<Longrightarrow> p = q"
  by (metis rep_child(3) option.inject)

lemma rep_after:
  assumes "rep h chl" "b < length h" "bowner (h ! b) = None" "bafter (h ! b) = Some c"
  obtains p where "p < length h" "bparent (h ! b) = Some p" "b \<in> set (chl p)" "c \<in> set (chl p)"
    "nxt (chl p) b = Some c" "prv (chl p) c = Some b"
proof -
  obtain p where p: "bparent (h ! b) = Some p"
    using rep_parent(2) [OF assms(1-3)] assms(4) by (cases "bparent (h ! b)") auto
  with rep_parent(1) [OF assms(1-3)] have p': "p < length h" "b \<in> set (chl p)" by auto
  with rep_child(5) [OF assms(1)] assms(4) have n: "nxt (chl p) b = Some c" by simp
  have "c \<in> set (chl p)" using nxt_SomeD [OF n] by simp
  moreover have "prv (chl p) c = Some b"
    using n nxt_prv [OF rep_distinct(1) [OF assms(1) p'(1)]] by simp
  ultimately show ?thesis using that p p' n by simp
qed

lemma rep_before:
  assumes "rep h chl" "b < length h" "bowner (h ! b) = None" "bbefore (h ! b) = Some a"
  obtains p where "p < length h" "bparent (h ! b) = Some p" "b \<in> set (chl p)" "a \<in> set (chl p)"
    "prv (chl p) b = Some a" "nxt (chl p) a = Some b"
proof -
  obtain p where p: "bparent (h ! b) = Some p"
    using rep_parent(2) [OF assms(1-3)] assms(4) by (cases "bparent (h ! b)") auto
  with rep_parent(1) [OF assms(1-3)] have p': "p < length h" "b \<in> set (chl p)" by auto
  with rep_child(4) [OF assms(1)] assms(4) have n: "prv (chl p) b = Some a" by simp
  have "a \<in> set (chl p)" using prv_SomeD [OF n] by simp
  moreover have "nxt (chl p) a = Some b"
    using n nxt_prv [OF rep_distinct(1) [OF assms(1) p'(1)]] by simp
  ultimately show ?thesis using that p p' n by simp
qed

lemma rep_get_before:
  "rep h chl \<Longrightarrow> p < length h \<Longrightarrow> y \<in> set (chl p) \<Longrightarrow> get_before h y = prv (chl p) y"
  using rep_child(2,4) by (simp add: getters_plain)

lemma rep_get_after:
  "rep h chl \<Longrightarrow> p < length h \<Longrightarrow> y \<in> set (chl p) \<Longrightarrow> get_after h y = nxt (chl p) y"
  using rep_child(2,5) by (simp add: getters_plain)

lemma rep_firstChild:
  assumes "rep h chl" "p < length h"
  shows "firstChild h p = (if chl p = [] then None else Some (hd (chl p)))"
proof (cases "chl p = []")
  case True
  with rep_distinct(2) [OF assms] show ?thesis by (simp add: firstChild_def find_none)
next
  case False
  have "\<And>y. y \<in> set (bchildren (h ! p)) \<Longrightarrow> get_before h y = None \<longleftrightarrow> y = hd (chl p)"
  proof -
    fix y assume "y \<in> set (bchildren (h ! p))"
    then have y: "y \<in> set (chl p)" using rep_distinct(2) [OF assms] by simp
    show "get_before h y = None \<longleftrightarrow> y = hd (chl p)"
      using rep_get_before [OF assms y] prv_None_iff [OF rep_distinct(1) [OF assms] y] by simp
  qed
  moreover have "hd (chl p) \<in> set (bchildren (h ! p))"
    using rep_distinct(2) [OF assms] False by (metis hd_in_set)
  ultimately show ?thesis using False by (simp add: firstChild_def find_unique)
qed

lemma rep_lastChild:
  assumes "rep h chl" "p < length h"
  shows "lastChild h p = (if chl p = [] then None else Some (last (chl p)))"
proof (cases "chl p = []")
  case True
  with rep_distinct(2) [OF assms] show ?thesis by (simp add: lastChild_def find_none)
next
  case False
  have "\<And>y. y \<in> set (bchildren (h ! p)) \<Longrightarrow> get_after h y = None \<longleftrightarrow> y = last (chl p)"
  proof -
    fix y assume "y \<in> set (bchildren (h ! p))"
    then have y: "y \<in> set (chl p)" using rep_distinct(2) [OF assms] by simp
    show "get_after h y = None \<longleftrightarrow> y = last (chl p)"
      using rep_get_after [OF assms y] nxt_None_iff [OF rep_distinct(1) [OF assms] y] by simp
  qed
  moreover have "last (chl p) \<in> set (bchildren (h ! p))"
    using rep_distinct(2) [OF assms] False by (metis last_in_set)
  ultimately show ?thesis using False by (simp add: lastChild_def find_unique)
qed

lemma walk_linked:
  "distinct xs \<Longrightarrow> (\<forall>c \<in> set xs. get_after h c = nxt xs c) \<Longrightarrow> length xs \<le> n \<Longrightarrow>
   walk h n (case xs of [] \<Rightarrow> None | x # _ \<Rightarrow> Some x) = xs"
proof (induction xs arbitrary: n)
  case Nil
  then show ?case by (cases n) auto
next
  case (Cons x xs)
  then obtain m where n: "n = Suc m" by (cases n) auto
  have "\<forall>c \<in> set xs. get_after h c = nxt xs c"
    using Cons.prems by (auto simp: nxt_Cons)
  moreover have "get_after h x = (case xs of [] \<Rightarrow> None | y # _ \<Rightarrow> Some y)"
    using Cons.prems by (simp add: nxt_Cons)
  ultimately show ?case using Cons n by simp
qed

lemma rep_order:
  assumes "rep h chl" "p < length h"
  shows "order h p = chl p"
proof -
  have "length (chl p) \<le> length (bchildren (h ! p))"
    using rep_distinct [OF assms] by (metis card_length distinct_card)
  moreover have "\<forall>c \<in> set (chl p). get_after h c = nxt (chl p) c"
    using rep_get_after [OF assms] by blast
  moreover have "firstChild h p = (case chl p of [] \<Rightarrow> None | x # _ \<Rightarrow> Some x)"
    using rep_firstChild [OF assms] by (simp split: list.split)
  ultimately show ?thesis
    using walk_linked [of "chl p" h] rep_distinct(1) [OF assms] by (simp add: order_def)
qed

lemma rep_cong:
  assumes "rep h chl" "\<And>p. p < length h \<Longrightarrow> chl' p = chl p"
  shows "rep h chl'"
proof -
  have "\<forall>c < length h. bowner (h ! c) = None \<longrightarrow>
          (case bparent (h ! c) of
             None \<Rightarrow> bbefore (h ! c) = None \<and> bafter (h ! c) = None
           | Some p \<Rightarrow> p < length h \<and> c \<in> set (chl' p))"
  proof (intro allI impI)
    fix c assume c: "c < length h" "bowner (h ! c) = None"
    show "case bparent (h ! c) of
             None \<Rightarrow> bbefore (h ! c) = None \<and> bafter (h ! c) = None
           | Some p \<Rightarrow> p < length h \<and> c \<in> set (chl' p)"
      using rep_parent_case [OF assms(1) c] assms(2) by (cases "bparent (h ! c)") auto
  qed
  with assms show ?thesis unfolding rep_def by simp
qed

lemma rep_wf_tree: "rep h chl \<Longrightarrow> wf_tree h"
  unfolding wf_tree_def by (rule rep_cong, assumption) (rule rep_order)

subsection \<open>unlink\<close>

lemma rep_before_owner:
  assumes "rep h chl" "b < length h" "bowner (h ! b) = None" "bbefore (h ! b) = Some a"
  shows "a < length h \<and> bowner (h ! a) = None \<and> a \<noteq> b"
proof -
  obtain p where p: "p < length h" "b \<in> set (chl p)" "a \<in> set (chl p)" "prv (chl p) b = Some a"
    using rep_before [OF assms] by metis
  then show ?thesis
    using rep_child(1,2) [OF assms(1) p(1,3)] prv_neq [OF rep_distinct(1) [OF assms(1) p(1)]] by auto
qed

lemma rep_after_owner:
  assumes "rep h chl" "b < length h" "bowner (h ! b) = None" "bafter (h ! b) = Some c"
  shows "c < length h \<and> bowner (h ! c) = None \<and> c \<noteq> b"
proof -
  obtain p where p: "p < length h" "b \<in> set (chl p)" "c \<in> set (chl p)" "nxt (chl p) b = Some c"
    using rep_after [OF assms] by metis
  then show ?thesis
    using rep_child(1,2) [OF assms(1) p(1,3)] nxt_neq [OF rep_distinct(1) [OF assms(1) p(1)]] by auto
qed

lemma unlink_effect:
  assumes r: "rep h chl" and b: "b < length h" "bowner (h ! b) = None"
  shows "\<exists>h'. unlink b h = (Inr (), h') \<and> length h' = length h \<and>
    (\<forall>x < length h. h' ! x = (h ! x)\<lparr>
       bparent := (if x = b then None else bparent (h ! x)),
       bbefore := (if x = b then None else if bafter (h ! b) = Some x then bbefore (h ! b)
                   else bbefore (h ! x)),
       bafter := (if x = b then None else if bbefore (h ! b) = Some x then bafter (h ! b)
                  else bafter (h ! x)),
       bchildren := (if bparent (h ! b) = Some x then removeAll b (bchildren (h ! x))
                     else bchildren (h ! x))\<rparr>)"
proof -
  have P: "\<And>p. bparent (h ! b) = Some p \<Longrightarrow> p < length h"
    using rep_parent(1) [OF r b] by blast
  have A: "\<And>a. bbefore (h ! b) = Some a \<Longrightarrow> a < length h \<and> bowner (h ! a) = None \<and> a \<noteq> b"
    using rep_before_owner [OF r b] by blast
  have C: "\<And>c. bafter (h ! b) = Some c \<Longrightarrow> c < length h \<and> bowner (h ! c) = None \<and> c \<noteq> b"
    using rep_after_owner [OF r b] by blast
  show ?thesis
  proof (cases "bparent (h ! b)")
    case None
    with rep_parent(2) [OF r b] have "bbefore (h ! b) = None" "bafter (h ! b) = None" by auto
    with None b show ?thesis
      by (simp add: unlink_def unlink_base_def tbind_def getters_plain setters_plain nth_list_update)
  next
    case (Some p)
    note p = P [OF Some]
    show ?thesis
    proof (cases "bbefore (h ! b)")
      case None
      show ?thesis
      proof (cases "bafter (h ! b)")
        case aN: None
        with None Some p b show ?thesis
          by (simp add: unlink_def unlink_base_def tbind_def getters_plain setters_plain delChild_def
                nth_list_update)
      next
        case (Some c)
        with None \<open>bparent (h ! b) = Some p\<close> p b C [OF Some] show ?thesis
          by (simp add: unlink_def unlink_base_def tbind_def getters_plain setters_plain delChild_def
                nth_list_update)
      qed
    next
      case (Some a)
      show ?thesis
      proof (cases "bafter (h ! b)")
        case None
        with Some \<open>bparent (h ! b) = Some p\<close> p b A [OF Some] show ?thesis
          by (simp add: unlink_def unlink_base_def tbind_def getters_plain setters_plain delChild_def
                nth_list_update)
      next
        case (Some c)
        have "a \<noteq> c"
        proof -
          obtain q where q: "q < length h" "bparent (h ! b) = Some q" "prv (chl q) b = Some a"
            using rep_before [OF r b \<open>bbefore (h ! b) = Some a\<close>] by metis
          obtain q' where q': "bparent (h ! b) = Some q'" "nxt (chl q') b = Some c"
            using rep_after [OF r b Some] by metis
          from q q' show ?thesis using prv_nxt_distinct [OF rep_distinct(1) [OF r q(1)]] by simp
        qed
        with Some \<open>bbefore (h ! b) = Some a\<close> \<open>bparent (h ! b) = Some p\<close> p b A [OF \<open>bbefore (h ! b) = Some a\<close>] C [OF Some] show ?thesis
          by (simp add: unlink_def unlink_base_def tbind_def getters_plain setters_plain delChild_def
                nth_list_update)
      qed
    qed
  qed
qed

lemma rep_intro:
  assumes len: "length h' = length h" and own: "\<forall>x < length h. bowner (h' ! x) = bowner (h ! x)"
    and r: "rep h chl"
    and ch: "\<And>p. p < length h \<Longrightarrow> distinct (chl' p) \<and> set (chl' p) = set (bchildren (h' ! p))"
    and el: "\<And>p c. p < length h \<Longrightarrow> c \<in> set (chl' p) \<Longrightarrow>
               c < length h \<and> bowner (h ! c) = None \<and> bparent (h' ! c) = Some p
               \<and> bbefore (h' ! c) = prv (chl' p) c \<and> bafter (h' ! c) = nxt (chl' p) c"
    and par: "\<And>c. c < length h \<Longrightarrow> bowner (h ! c) = None \<Longrightarrow>
               (case bparent (h' ! c) of
                  None \<Rightarrow> bbefore (h' ! c) = None \<and> bafter (h' ! c) = None
                | Some q \<Rightarrow> q < length h \<and> c \<in> set (chl' q))"
  shows "rep h' chl'"
proof -
  have o: "\<forall>c < length h. case bowner (h' ! c) of
          None \<Rightarrow> True | Some ow \<Rightarrow> ow < length h \<and> bowner (h' ! ow) = None"
  proof (intro allI impI)
    fix c assume c: "c < length h"
    show "case bowner (h' ! c) of None \<Rightarrow> True | Some ow \<Rightarrow> ow < length h \<and> bowner (h' ! ow) = None"
    proof (cases "bowner (h ! c)")
      case None
      with own c show ?thesis by simp
    next
      case (Some ow)
      with rep_owner [OF r c] own c show ?thesis by simp
    qed
  qed
  have a: "\<forall>p < length h. distinct (chl' p) \<and> set (chl' p) = set (bchildren (h' ! p))
        \<and> (\<forall>c \<in> set (chl' p). c < length h \<and> bowner (h' ! c) = None \<and> bparent (h' ! c) = Some p
                            \<and> bbefore (h' ! c) = prv (chl' p) c \<and> bafter (h' ! c) = nxt (chl' p) c)"
  proof (intro allI impI conjI ballI)
    fix p c assume p: "p < length h" and c: "c \<in> set (chl' p)"
    from el [OF p c] own show "c < length h" "bowner (h' ! c) = None" "bparent (h' ! c) = Some p"
      "bbefore (h' ! c) = prv (chl' p) c" "bafter (h' ! c) = nxt (chl' p) c" by auto
  qed (use ch in auto)
  have b: "\<forall>c < length h. bowner (h' ! c) = None \<longrightarrow>
        (case bparent (h' ! c) of
           None \<Rightarrow> bbefore (h' ! c) = None \<and> bafter (h' ! c) = None
         | Some p \<Rightarrow> p < length h \<and> c \<in> set (chl' p))"
    using par own by simp
  show ?thesis unfolding rep_def len using a b o by blast
qed

lemma unlink_refines:
  assumes r: "rep h chl" and b: "b < length h" "bowner (h ! b) = None"
  obtains h' where "unlink b h = (Inr (), h')" "rep h' (\<lambda>q. removeAll b (chl q))"
    "length h' = length h" "bparent (h' ! b) = None"
    "\<forall>x < length h. bkind (h' ! x) = bkind (h ! x) \<and> bowner (h' ! x) = bowner (h ! x)
                     \<and> bmarker (h' ! x) = bmarker (h ! x)"
proof -
  obtain h' where u: "unlink b h = (Inr (), h')" and len: "length h' = length h"
    and f: "\<forall>x < length h. h' ! x = (h ! x)\<lparr>
       bparent := (if x = b then None else bparent (h ! x)),
       bbefore := (if x = b then None else if bafter (h ! b) = Some x then bbefore (h ! b)
                   else bbefore (h ! x)),
       bafter := (if x = b then None else if bbefore (h ! b) = Some x then bafter (h ! b)
                  else bafter (h ! x)),
       bchildren := (if bparent (h ! b) = Some x then removeAll b (bchildren (h ! x))
                     else bchildren (h ! x))\<rparr>"
    using unlink_effect [OF r b] by blast
  have notin: "\<And>p. p < length h \<Longrightarrow> bparent (h ! b) \<noteq> Some p \<Longrightarrow> b \<notin> set (chl p)"
    using rep_child(3) [OF r] by blast
  have aft: "\<And>p c. p < length h \<Longrightarrow> c \<in> set (chl p) \<Longrightarrow> c \<noteq> b \<Longrightarrow>
               (bafter (h ! b) = Some c) \<longleftrightarrow> prv (chl p) c = Some b"
  proof -
    fix p c assume pc: "p < length h" "c \<in> set (chl p)" "c \<noteq> b"
    show "(bafter (h ! b) = Some c) \<longleftrightarrow> prv (chl p) c = Some b"
    proof
      assume "bafter (h ! b) = Some c"
      then obtain q where "q < length h" "c \<in> set (chl q)" "prv (chl q) c = Some b"
        using rep_after [OF r b] by metis
      with pc rep_unique_parent [OF r] show "prv (chl p) c = Some b" by metis
    next
      assume pv: "prv (chl p) c = Some b"
      then have "b \<in> set (chl p)" "nxt (chl p) b = Some c"
        using prv_SomeD [OF pv] nxt_prv [OF rep_distinct(1) [OF r pc(1)]] by auto
      with rep_child(5) [OF r pc(1)] show "bafter (h ! b) = Some c" by simp
    qed
  qed
  have bef: "\<And>p c. p < length h \<Longrightarrow> c \<in> set (chl p) \<Longrightarrow> c \<noteq> b \<Longrightarrow>
               (bbefore (h ! b) = Some c) \<longleftrightarrow> nxt (chl p) c = Some b"
  proof -
    fix p c assume pc: "p < length h" "c \<in> set (chl p)" "c \<noteq> b"
    show "(bbefore (h ! b) = Some c) \<longleftrightarrow> nxt (chl p) c = Some b"
    proof
      assume "bbefore (h ! b) = Some c"
      then obtain q where "q < length h" "c \<in> set (chl q)" "nxt (chl q) c = Some b"
        using rep_before [OF r b] by metis
      with pc rep_unique_parent [OF r] show "nxt (chl p) c = Some b" by metis
    next
      assume nx: "nxt (chl p) c = Some b"
      then have "b \<in> set (chl p)" "prv (chl p) b = Some c"
        using nxt_SomeD [OF nx] nxt_prv [OF rep_distinct(1) [OF r pc(1)]] by auto
      with rep_child(4) [OF r pc(1)] show "bbefore (h ! b) = Some c" by simp
    qed
  qed
  have ch: "\<And>p. p < length h \<Longrightarrow>
      distinct (removeAll b (chl p)) \<and> set (removeAll b (chl p)) = set (bchildren (h' ! p))"
  proof -
    fix p assume p: "p < length h"
    have hc: "bchildren (h' ! p) = (if bparent (h ! b) = Some p then removeAll b (bchildren (h ! p))
                                   else bchildren (h ! p))" using f p by simp
    show "distinct (removeAll b (chl p)) \<and> set (removeAll b (chl p)) = set (bchildren (h' ! p))"
    proof (cases "bparent (h ! b) = Some p")
      case True
      with hc rep_distinct [OF r p] show ?thesis by (simp add: distinct_removeAll)
    next
      case False
      with hc rep_distinct [OF r p] notin [OF p] show ?thesis by simp
    qed
  qed
  have el: "\<And>p c. p < length h \<Longrightarrow> c \<in> set (removeAll b (chl p)) \<Longrightarrow>
      c < length h \<and> bowner (h ! c) = None \<and> bparent (h' ! c) = Some p
      \<and> bbefore (h' ! c) = prv (removeAll b (chl p)) c \<and> bafter (h' ! c) = nxt (removeAll b (chl p)) c"
  proof -
    fix p c assume p: "p < length h" and c: "c \<in> set (removeAll b (chl p))"
    then have c': "c \<in> set (chl p)" "c \<noteq> b" by auto
    note rc = rep_child [OF r p c'(1)]
    have d: "distinct (chl p)" using rep_distinct(1) [OF r p] .
    have "bbefore (h' ! c) = prv (removeAll b (chl p)) c"
    proof (cases "b \<in> set (chl p)")
      case True
      then show ?thesis
        using f rc c' aft [OF p c'] rep_child(4) [OF r p True] d by (simp add: prv_removeAll)
    next
      case False
      then have "prv (chl p) c \<noteq> Some b" using prv_SomeD [of "chl p" c b] by blast
      with False show ?thesis
        using f rc c' aft [OF p c'] d by (simp add: prv_removeAll)
    qed
    moreover have "bafter (h' ! c) = nxt (removeAll b (chl p)) c"
    proof (cases "b \<in> set (chl p)")
      case True
      then show ?thesis
        using f rc c' bef [OF p c'] rep_child(5) [OF r p True] d by (simp add: nxt_removeAll)
    next
      case False
      then have "nxt (chl p) c \<noteq> Some b" using nxt_SomeD [of "chl p" c b] by blast
      with False show ?thesis
        using f rc c' bef [OF p c'] d by (simp add: nxt_removeAll)
    qed
    ultimately show "c < length h \<and> bowner (h ! c) = None \<and> bparent (h' ! c) = Some p
      \<and> bbefore (h' ! c) = prv (removeAll b (chl p)) c \<and> bafter (h' ! c) = nxt (removeAll b (chl p)) c"
      using f rc c' by simp
  qed
  have par: "\<And>c. c < length h \<Longrightarrow> bowner (h ! c) = None \<Longrightarrow>
      (case bparent (h' ! c) of
         None \<Rightarrow> bbefore (h' ! c) = None \<and> bafter (h' ! c) = None
       | Some q \<Rightarrow> q < length h \<and> c \<in> set (removeAll b (chl q)))"
  proof -
    fix c assume c: "c < length h" "bowner (h ! c) = None"
    show "case bparent (h' ! c) of
         None \<Rightarrow> bbefore (h' ! c) = None \<and> bafter (h' ! c) = None
       | Some q \<Rightarrow> q < length h \<and> c \<in> set (removeAll b (chl q))"
    proof (cases "c = b")
      case True
      with f c show ?thesis by simp
    next
      case False
      show ?thesis
      proof (cases "bparent (h ! c)")
        case None
        have "bafter (h ! b) \<noteq> Some c"
        proof
          assume "bafter (h ! b) = Some c"
          then obtain q where "q < length h" "c \<in> set (chl q)" using rep_after [OF r b] by metis
          with rep_child(3) [OF r] None show False by simp
        qed
        moreover have "bbefore (h ! b) \<noteq> Some c"
        proof
          assume "bbefore (h ! b) = Some c"
          then obtain q where "q < length h" "c \<in> set (chl q)" using rep_before [OF r b] by metis
          with rep_child(3) [OF r] None show False by simp
        qed
        ultimately show ?thesis using None False f c rep_parent(2) [OF r c] by simp
      next
        case (Some q)
        with False f c rep_parent(1) [OF r c] show ?thesis by simp
      qed
    qed
  qed
  have own: "\<forall>x < length h. bowner (h' ! x) = bowner (h ! x)" using f by simp
  have "rep h' (\<lambda>q. removeAll b (chl q))"
    by (rule rep_intro [OF len own r ch el par])
  moreover have "bparent (h' ! b) = None" using f b by simp
  moreover have "\<forall>x < length h. bkind (h' ! x) = bkind (h ! x) \<and> bowner (h' ! x) = bowner (h ! x)
                     \<and> bmarker (h' ! x) = bmarker (h ! x)" using f by simp
  ultimately show ?thesis using that u len by blast
qed

lemma unlink_detached:
  assumes r: "rep h chl" and b: "b < length h" "bowner (h ! b) = None" "bparent (h ! b) = None"
  shows "unlink b h = (Inr (), h)"
proof -
  have n: "bbefore (h ! b) = None" "bafter (h ! b) = None" using rep_parent(2) [OF r b(1,2) b(3)] by auto
  obtain h' where u: "unlink b h = (Inr (), h')" and len: "length h' = length h"
    and f: "\<forall>x < length h. h' ! x = (h ! x)\<lparr>
       bparent := (if x = b then None else bparent (h ! x)),
       bbefore := (if x = b then None else if bafter (h ! b) = Some x then bbefore (h ! b)
                   else bbefore (h ! x)),
       bafter := (if x = b then None else if bbefore (h ! b) = Some x then bafter (h ! b)
                  else bafter (h ! x)),
       bchildren := (if bparent (h ! b) = Some x then removeAll b (bchildren (h ! x))
                     else bchildren (h ! x))\<rparr>"
    using unlink_effect [OF r b(1,2)] by blast
  have "h' = h"
  proof (rule nth_equalityI)
    show "length h' = length h" by (rule len)
    fix x assume "x < length h'"
    with f len n b show "h' ! x = h ! x" by (cases "x = b") simp_all
  qed
  with u show ?thesis by simp
qed

lemma add_unlink:
  assumes "bowner (h ! b) = None" "bowner (h1 ! b) = None"
    "unlink b h = (Inr (), h1)" "unlink b h1 = (Inr (), h1)"
  shows "addAfterBlock b t h = addAfterBlock b t h1" "addBeforeBlock b t h = addBeforeBlock b t h1"
  using assms by (simp_all add: addAfterBlock_def addAfterBlock_base_def addBeforeBlock_def
      addBeforeBlock_base_def tbind_def)

lemma detached_notin:
  "rep h chl \<Longrightarrow> b < length h \<Longrightarrow> bparent (h ! b) = None \<Longrightarrow> p < length h \<Longrightarrow> b \<notin> set (chl p)"
  using rep_child(3) by fastforce

lemma nth_upd: "xs[i := v] ! j = (if j = i \<and> i < length xs then v else xs ! j)"
  by (cases "i < length xs") (auto simp: nth_list_update list_update_beyond)

lemma link_after_effect:
  assumes r: "rep h chl" and b: "b < length h" "bowner (h ! b) = None" "bparent (h ! b) = None"
    and t: "t < length h" "bowner (h ! t) = None" "bparent (h ! t) = Some p" "t \<noteq> b"
  shows "\<exists>h'. addAfterBlock b t h = (Inr (), h') \<and> length h' = length h \<and>
    (\<forall>x < length h. h' ! x = (h ! x)\<lparr>
       bparent := (if x = b then Some p else bparent (h ! x)),
       bbefore := (if x = b then Some t else if bafter (h ! t) = Some x then Some b else bbefore (h ! x)),
       bafter := (if x = b then bafter (h ! t) else if x = t then Some b else bafter (h ! x)),
       bchildren := (if x = p then bchildren (h ! p) @ [b] else bchildren (h ! x))\<rparr>)"
proof -
  have p: "p < length h" "t \<in> set (chl p)" using rep_parent(1) [OF r t(1,2) t(3)] by auto
  have nb: "b \<notin> set (bchildren (h ! p))"
    using detached_notin [OF r b(1,3) p(1)] rep_distinct(2) [OF r p(1)] by simp
  have u: "unlink b h = (Inr (), h)" by (rule unlink_detached [OF r b])
  show ?thesis
  proof (cases "bafter (h ! t)")
    case None
    with u b t p nb show ?thesis
      by (cases "p = b"; cases "p = t") (simp_all add: addAfterBlock_def addAfterBlock_base_def tbind_def getters_plain setters_plain
            setChild_def nth_upd Let_def)
  next
    case (Some c)
    have c: "c < length h" "bowner (h ! c) = None" "c \<noteq> t"
      using rep_after_owner [OF r t(1,2) Some] by auto
    have "c \<in> set (chl p)"
      using rep_after [OF r t(1,2) Some] t(3) by (metis option.inject)
    then have "c \<noteq> b" using detached_notin [OF r b(1,3) p(1)] by blast
    with Some u b t p nb c show ?thesis
      by (cases "p = b"; cases "p = t"; cases "p = c") (simp_all add: addAfterBlock_def addAfterBlock_base_def tbind_def getters_plain setters_plain
            setChild_def nth_upd Let_def)
  qed
qed

lemma link_before_effect:
  assumes r: "rep h chl" and b: "b < length h" "bowner (h ! b) = None" "bparent (h ! b) = None"
    and t: "t < length h" "bowner (h ! t) = None" "bparent (h ! t) = Some p" "t \<noteq> b"
  shows "\<exists>h'. addBeforeBlock b t h = (Inr (), h') \<and> length h' = length h \<and>
    (\<forall>x < length h. h' ! x = (h ! x)\<lparr>
       bparent := (if x = b then Some p else bparent (h ! x)),
       bbefore := (if x = b then bbefore (h ! t) else if x = t then Some b else bbefore (h ! x)),
       bafter := (if x = b then Some t else if bbefore (h ! t) = Some x then Some b else bafter (h ! x)),
       bchildren := (if x = p then bchildren (h ! p) @ [b] else bchildren (h ! x))\<rparr>)"
proof -
  have p: "p < length h" "t \<in> set (chl p)" using rep_parent(1) [OF r t(1,2) t(3)] by auto
  have nb: "b \<notin> set (bchildren (h ! p))"
    using detached_notin [OF r b(1,3) p(1)] rep_distinct(2) [OF r p(1)] by simp
  have u: "unlink b h = (Inr (), h)" by (rule unlink_detached [OF r b])
  show ?thesis
  proof (cases "bbefore (h ! t)")
    case None
    with u b t p nb show ?thesis
      by (cases "p = b"; cases "p = t") (simp_all add: addBeforeBlock_def addBeforeBlock_base_def tbind_def getters_plain setters_plain
            setChild_def nth_upd Let_def)
  next
    case (Some a)
    have a: "a < length h" "bowner (h ! a) = None" "a \<noteq> t"
      using rep_before_owner [OF r t(1,2) Some] by auto
    have "a \<in> set (chl p)"
      using rep_before [OF r t(1,2) Some] t(3) by (metis option.inject)
    then have "a \<noteq> b" using detached_notin [OF r b(1,3) p(1)] by blast
    with Some u b t p nb a show ?thesis
      by (cases "p = b"; cases "p = t"; cases "p = a") (simp_all add: addBeforeBlock_def addBeforeBlock_base_def tbind_def getters_plain setters_plain
            setChild_def nth_upd Let_def)
  qed
qed

lemma link_after_refines:
  assumes r: "rep h chl" and b: "b < length h" "bowner (h ! b) = None" "bparent (h ! b) = None"
    and t: "t < length h" "bowner (h ! t) = None" "bparent (h ! t) = Some p" "t \<noteq> b"
  obtains h' where "addAfterBlock b t h = (Inr (), h')" "rep h' (chl(p := ins_after t b (chl p)))"
    "length h' = length h"
    "\<forall>x < length h. bkind (h' ! x) = bkind (h ! x) \<and> bowner (h' ! x) = bowner (h ! x)
                     \<and> bmarker (h' ! x) = bmarker (h ! x)"
proof -
  obtain h' where u: "addAfterBlock b t h = (Inr (), h')" and len: "length h' = length h"
    and f: "\<forall>x < length h. h' ! x = (h ! x)\<lparr>
       bparent := (if x = b then Some p else bparent (h ! x)),
       bbefore := (if x = b then Some t else if bafter (h ! t) = Some x then Some b else bbefore (h ! x)),
       bafter := (if x = b then bafter (h ! t) else if x = t then Some b else bafter (h ! x)),
       bchildren := (if x = p then bchildren (h ! p) @ [b] else bchildren (h ! x))\<rparr>"
    using link_after_effect [OF r b t] by blast
  have p: "p < length h" "t \<in> set (chl p)" using rep_parent(1) [OF r t(1,2) t(3)] by auto
  have dp: "distinct (chl p)" using rep_distinct(1) [OF r p(1)] .
  have bn: "\<And>q. q < length h \<Longrightarrow> b \<notin> set (chl q)" using detached_notin [OF r b(1,3)] .
  have ta: "bafter (h ! t) = nxt (chl p) t" using rep_child(5) [OF r p] .
  let ?chl' = "chl(p := ins_after t b (chl p))"
  have ch: "\<And>q. q < length h \<Longrightarrow> distinct (?chl' q) \<and> set (?chl' q) = set (bchildren (h' ! q))"
    using f rep_distinct [OF r] bn p by auto
  have el: "\<And>q c. q < length h \<Longrightarrow> c \<in> set (?chl' q) \<Longrightarrow>
      c < length h \<and> bowner (h ! c) = None \<and> bparent (h' ! c) = Some q
      \<and> bbefore (h' ! c) = prv (?chl' q) c \<and> bafter (h' ! c) = nxt (?chl' q) c"
  proof -
    fix q c assume q: "q < length h" and c: "c \<in> set (?chl' q)"
    show "c < length h \<and> bowner (h ! c) = None \<and> bparent (h' ! c) = Some q
      \<and> bbefore (h' ! c) = prv (?chl' q) c \<and> bafter (h' ! c) = nxt (?chl' q) c"
    proof (cases "q = p")
      case True
      show ?thesis
      proof (cases "c = b")
        case True
        with \<open>q = p\<close> f b t ta dp p bn [OF p(1)] show ?thesis
          by (simp add: prv_ins_after nxt_ins_after)
      next
        case False
        with \<open>q = p\<close> c p have c': "c \<in> set (chl p)" by (auto split: if_splits)
        note rc = rep_child [OF r p(1) c']
        have "bafter (h ! t) = Some c \<longleftrightarrow> prv (chl p) c = Some t"
          using ta nxt_prv [OF dp] by simp
        with False \<open>q = p\<close> f rc dp p bn [OF p(1)] show ?thesis
          by (cases "c = t") (simp_all add: prv_ins_after nxt_ins_after)
      qed
    next
      case False
      then have c': "c \<in> set (chl q)" using c by simp
      note rc = rep_child [OF r q c']
      have "c \<noteq> b" using bn [OF q] c' by blast
      moreover have "c \<noteq> t" using rep_unique_parent [OF r q p(1) c'] p(2) False by blast
      moreover have "bafter (h ! t) \<noteq> Some c"
        using ta nxt_SomeD [of "chl p" t c] rep_unique_parent [OF r q p(1) c'] False by auto
      ultimately show ?thesis using False f rc by simp
    qed
  qed
  have par: "\<And>c. c < length h \<Longrightarrow> bowner (h ! c) = None \<Longrightarrow>
      (case bparent (h' ! c) of
         None \<Rightarrow> bbefore (h' ! c) = None \<and> bafter (h' ! c) = None
       | Some q \<Rightarrow> q < length h \<and> c \<in> set (?chl' q))"
  proof -
    fix c assume c: "c < length h" "bowner (h ! c) = None"
    show "case bparent (h' ! c) of
         None \<Rightarrow> bbefore (h' ! c) = None \<and> bafter (h' ! c) = None
       | Some q \<Rightarrow> q < length h \<and> c \<in> set (?chl' q)"
    proof (cases "c = b")
      case True
      with f c p show ?thesis by simp
    next
      case False
      show ?thesis
      proof (cases "bparent (h ! c)")
        case None
        have "c \<noteq> t" using None t(3) by auto
        moreover have "bafter (h ! t) \<noteq> Some c"
          using ta nxt_SomeD [of "chl p" t c] rep_child(3) [OF r p(1)] None by auto
        ultimately show ?thesis using None False f c rep_parent(2) [OF r c] by simp
      next
        case (Some q)
        with False f c rep_parent(1) [OF r c] p show ?thesis by auto
      qed
    qed
  qed
  have own: "\<forall>x < length h. bowner (h' ! x) = bowner (h ! x)" using f by simp
  have "rep h' ?chl'" by (rule rep_intro [OF len own r ch el par])
  moreover have "\<forall>x < length h. bkind (h' ! x) = bkind (h ! x) \<and> bowner (h' ! x) = bowner (h ! x)
                     \<and> bmarker (h' ! x) = bmarker (h ! x)" using f by simp
  ultimately show ?thesis using that u len by blast
qed


lemma link_before_refines:
  assumes r: "rep h chl" and b: "b < length h" "bowner (h ! b) = None" "bparent (h ! b) = None"
    and t: "t < length h" "bowner (h ! t) = None" "bparent (h ! t) = Some p" "t \<noteq> b"
  obtains h' where "addBeforeBlock b t h = (Inr (), h')" "rep h' (chl(p := ins_before t b (chl p)))"
    "length h' = length h"
    "\<forall>x < length h. bkind (h' ! x) = bkind (h ! x) \<and> bowner (h' ! x) = bowner (h ! x)
                     \<and> bmarker (h' ! x) = bmarker (h ! x)"
proof -
  obtain h' where u: "addBeforeBlock b t h = (Inr (), h')" and len: "length h' = length h"
    and f: "\<forall>x < length h. h' ! x = (h ! x)\<lparr>
       bparent := (if x = b then Some p else bparent (h ! x)),
       bbefore := (if x = b then bbefore (h ! t) else if x = t then Some b else bbefore (h ! x)),
       bafter := (if x = b then Some t else if bbefore (h ! t) = Some x then Some b else bafter (h ! x)),
       bchildren := (if x = p then bchildren (h ! p) @ [b] else bchildren (h ! x))\<rparr>"
    using link_before_effect [OF r b t] by blast
  have p: "p < length h" "t \<in> set (chl p)" using rep_parent(1) [OF r t(1,2) t(3)] by auto
  have dp: "distinct (chl p)" using rep_distinct(1) [OF r p(1)] .
  have bn: "\<And>q. q < length h \<Longrightarrow> b \<notin> set (chl q)" using detached_notin [OF r b(1,3)] .
  have ta: "bbefore (h ! t) = prv (chl p) t" using rep_child(4) [OF r p] .
  let ?chl' = "chl(p := ins_before t b (chl p))"
  have ch: "\<And>q. q < length h \<Longrightarrow> distinct (?chl' q) \<and> set (?chl' q) = set (bchildren (h' ! q))"
    using f rep_distinct [OF r] bn p by auto
  have el: "\<And>q c. q < length h \<Longrightarrow> c \<in> set (?chl' q) \<Longrightarrow>
      c < length h \<and> bowner (h ! c) = None \<and> bparent (h' ! c) = Some q
      \<and> bbefore (h' ! c) = prv (?chl' q) c \<and> bafter (h' ! c) = nxt (?chl' q) c"
  proof -
    fix q c assume q: "q < length h" and c: "c \<in> set (?chl' q)"
    show "c < length h \<and> bowner (h ! c) = None \<and> bparent (h' ! c) = Some q
      \<and> bbefore (h' ! c) = prv (?chl' q) c \<and> bafter (h' ! c) = nxt (?chl' q) c"
    proof (cases "q = p")
      case True
      show ?thesis
      proof (cases "c = b")
        case True
        with \<open>q = p\<close> f b t ta dp p bn [OF p(1)] show ?thesis
          by (simp add: prv_ins_before nxt_ins_before)
      next
        case False
        with \<open>q = p\<close> c p have c': "c \<in> set (chl p)" by (auto split: if_splits)
        note rc = rep_child [OF r p(1) c']
        have "bbefore (h ! t) = Some c \<longleftrightarrow> nxt (chl p) c = Some t"
          using ta nxt_prv [OF dp] by simp
        with False \<open>q = p\<close> f rc dp p bn [OF p(1)] show ?thesis
          by (cases "c = t") (simp_all add: prv_ins_before nxt_ins_before)
      qed
    next
      case False
      then have c': "c \<in> set (chl q)" using c by simp
      note rc = rep_child [OF r q c']
      have "c \<noteq> b" using bn [OF q] c' by blast
      moreover have "c \<noteq> t" using rep_unique_parent [OF r q p(1) c'] p(2) False by blast
      moreover have "bbefore (h ! t) \<noteq> Some c"
        using ta prv_SomeD [of "chl p" t c] rep_unique_parent [OF r q p(1) c'] False by auto
      ultimately show ?thesis using False f rc by simp
    qed
  qed
  have par: "\<And>c. c < length h \<Longrightarrow> bowner (h ! c) = None \<Longrightarrow>
      (case bparent (h' ! c) of
         None \<Rightarrow> bbefore (h' ! c) = None \<and> bafter (h' ! c) = None
       | Some q \<Rightarrow> q < length h \<and> c \<in> set (?chl' q))"
  proof -
    fix c assume c: "c < length h" "bowner (h ! c) = None"
    show "case bparent (h' ! c) of
         None \<Rightarrow> bbefore (h' ! c) = None \<and> bafter (h' ! c) = None
       | Some q \<Rightarrow> q < length h \<and> c \<in> set (?chl' q)"
    proof (cases "c = b")
      case True
      with f c p show ?thesis by simp
    next
      case False
      show ?thesis
      proof (cases "bparent (h ! c)")
        case None
        have "c \<noteq> t" using None t(3) by auto
        moreover have "bbefore (h ! t) \<noteq> Some c"
          using ta prv_SomeD [of "chl p" t c] rep_child(3) [OF r p(1)] None by auto
        ultimately show ?thesis using None False f c rep_parent(2) [OF r c] by simp
      next
        case (Some q)
        with False f c rep_parent(1) [OF r c] p show ?thesis by auto
      qed
    qed
  qed
  have own: "\<forall>x < length h. bowner (h' ! x) = bowner (h ! x)" using f by simp
  have "rep h' ?chl'" by (rule rep_intro [OF len own r ch el par])
  moreover have "\<forall>x < length h. bkind (h' ! x) = bkind (h ! x) \<and> bowner (h' ! x) = bowner (h ! x)
                     \<and> bmarker (h' ! x) = bmarker (h ! x)" using f by simp
  ultimately show ?thesis using that u len by blast
qed

lemma adopt_refines:
  assumes r: "rep h chl" and b: "b < length h" "bowner (h ! b) = None" "bparent (h ! b) = None"
    and p: "p < length h" "chl p = []"
  obtains h' where "tbind (set_parent b (Some p)) (\<lambda>_. setChild p b) h = (Inr (), h')"
    "rep h' (chl(p := [b]))" "length h' = length h"
    "\<forall>x < length h. bkind (h' ! x) = bkind (h ! x) \<and> bowner (h' ! x) = bowner (h ! x)
                     \<and> bmarker (h' ! x) = bmarker (h ! x)"
proof -
  have nb: "bchildren (h ! p) = []" using rep_distinct(2) [OF r p(1)] p(2) by simp
  have bn: "\<And>q. q < length h \<Longrightarrow> b \<notin> set (chl q)" using detached_notin [OF r b(1,3)] .
  have bb: "bbefore (h ! b) = None" "bafter (h ! b) = None" using rep_parent(2) [OF r b(1,2) b(3)] by auto
  define h' where "h' = h[b := (h ! b)\<lparr>bparent := Some p\<rparr>, p := (h[b := (h ! b)\<lparr>bparent := Some p\<rparr>] ! p)\<lparr>bchildren := [b]\<rparr>]"
  have u: "tbind (set_parent b (Some p)) (\<lambda>_. setChild p b) h = (Inr (), h')"
    using b p nb by (cases "p = b") (simp_all add: h'_def setters_plain setChild_def tbind_def nth_upd)
  have len: "length h' = length h" by (simp add: h'_def)
  have f: "\<forall>x < length h. h' ! x = (h ! x)\<lparr>bparent := (if x = b then Some p else bparent (h ! x)),
             bchildren := (if x = p then [b] else bchildren (h ! x))\<rparr>"
    using b p by (auto simp: h'_def nth_upd)
  let ?chl' = "chl(p := [b])"
  have ch: "\<And>q. q < length h \<Longrightarrow> distinct (?chl' q) \<and> set (?chl' q) = set (bchildren (h' ! q))"
    using f rep_distinct [OF r] by auto
  have el: "\<And>q c. q < length h \<Longrightarrow> c \<in> set (?chl' q) \<Longrightarrow>
      c < length h \<and> bowner (h ! c) = None \<and> bparent (h' ! c) = Some q
      \<and> bbefore (h' ! c) = prv (?chl' q) c \<and> bafter (h' ! c) = nxt (?chl' q) c"
  proof -
    fix q c assume q: "q < length h" and c: "c \<in> set (?chl' q)"
    show "c < length h \<and> bowner (h ! c) = None \<and> bparent (h' ! c) = Some q
      \<and> bbefore (h' ! c) = prv (?chl' q) c \<and> bafter (h' ! c) = nxt (?chl' q) c"
    proof (cases "q = p")
      case True
      with c f b bb show ?thesis by (simp add: prv_def)
    next
      case False
      then have c': "c \<in> set (chl q)" using c by simp
      with bn [OF q] have "c \<noteq> b" by blast
      with False f rep_child [OF r q c'] show ?thesis by simp
    qed
  qed
  have par: "\<And>c. c < length h \<Longrightarrow> bowner (h ! c) = None \<Longrightarrow>
      (case bparent (h' ! c) of
         None \<Rightarrow> bbefore (h' ! c) = None \<and> bafter (h' ! c) = None
       | Some q \<Rightarrow> q < length h \<and> c \<in> set (?chl' q))"
  proof -
    fix c assume c: "c < length h" "bowner (h ! c) = None"
    show "case bparent (h' ! c) of
         None \<Rightarrow> bbefore (h' ! c) = None \<and> bafter (h' ! c) = None
       | Some q \<Rightarrow> q < length h \<and> c \<in> set (?chl' q)"
    proof (cases "c = b")
      case True
      with f c p show ?thesis by simp
    next
      case False
      have "bparent (h ! c) = Some p \<Longrightarrow> False"
        using rep_parent(1) [OF r c] p(2) by auto
      with False f c rep_parent_case [OF r c] show ?thesis by (auto split: option.splits)
    qed
  qed
  have own: "\<forall>x < length h. bowner (h' ! x) = bowner (h ! x)" using f by simp
  have "rep h' ?chl'" by (rule rep_intro [OF len own r ch el par])
  moreover have "\<forall>x < length h. bkind (h' ! x) = bkind (h ! x) \<and> bowner (h' ! x) = bowner (h ! x)
                     \<and> bmarker (h' ! x) = bmarker (h ! x)" using f by simp
  ultimately show ?thesis using that u len by blast
qed

subsection \<open>The public operations\<close>

text \<open>After \<open>unlink b\<close> the block is detached, and a block other than \<open>b\<close> keeps its parent.\<close>

lemma unlink_detaches:
  assumes r: "rep h chl" and b: "ordinary h b"
  obtains h1 where "unlink b h = (Inr (), h1)" "rep h1 (\<lambda>q. removeAll b (chl q))"
    "length h1 = length h" "ordinary h1 b" "bparent (h1 ! b) = None" "unlink b h1 = (Inr (), h1)"
    "\<And>x. x < length h \<Longrightarrow> bowner (h1 ! x) = bowner (h ! x)"
    "\<And>t p. t < length h \<Longrightarrow> t \<noteq> b \<Longrightarrow> bowner (h ! t) = None \<Longrightarrow> bparent (h ! t) = Some p \<Longrightarrow>
       bparent (h1 ! t) = Some p"
proof -
  from b have b': "b < length h" "bowner (h ! b) = None" by (auto simp: ordinary_def)
  obtain h1 where u: "unlink b h = (Inr (), h1)" and r1: "rep h1 (\<lambda>q. removeAll b (chl q))"
    and len: "length h1 = length h" and pb: "bparent (h1 ! b) = None"
    and own: "\<forall>x < length h. bkind (h1 ! x) = bkind (h ! x) \<and> bowner (h1 ! x) = bowner (h ! x)
                     \<and> bmarker (h1 ! x) = bmarker (h ! x)"
    using unlink_refines [OF r b'] by blast
  have ob: "bowner (h1 ! b) = None" using own b' by simp
  have u1: "unlink b h1 = (Inr (), h1)" using unlink_detached [OF r1 _ ob pb] b' len by simp
  have tp: "\<And>t p. t < length h \<Longrightarrow> t \<noteq> b \<Longrightarrow> bowner (h ! t) = None \<Longrightarrow> bparent (h ! t) = Some p \<Longrightarrow>
       bparent (h1 ! t) = Some p"
  proof -
    fix t p assume t: "t < length h" "t \<noteq> b" "bowner (h ! t) = None" "bparent (h ! t) = Some p"
    then have "p < length h" "t \<in> set (chl p)" using rep_parent(1) [OF r t(1,3)] by auto
    with t(2) have "t \<in> set (removeAll b (chl p))" by simp
    with rep_child(3) [OF r1] \<open>p < length h\<close> len show "bparent (h1 ! t) = Some p" by simp
  qed
  show ?thesis
    using that u r1 len ob pb u1 own tp b' by (simp add: ordinary_def)
qed

lemma addAfterBlock_rep:
  assumes r: "rep h chl" and b: "ordinary h b" and t: "ordinary h t" "t \<noteq> b" "bparent (h ! t) = Some p"
  obtains h' where "addAfterBlock b t h = (Inr (), h')"
    "rep h' ((\<lambda>q. removeAll b (chl q))(p := ins_after t b (removeAll b (chl p))))"
    "length h' = length h"
proof -
  obtain h1 where u: "unlink b h = (Inr (), h1)" and r1: "rep h1 (\<lambda>q. removeAll b (chl q))"
    and len: "length h1 = length h" and b1: "ordinary h1 b" "bparent (h1 ! b) = None"
    and u1: "unlink b h1 = (Inr (), h1)" and own: "\<And>x. x < length h \<Longrightarrow> bowner (h1 ! x) = bowner (h ! x)"
    and tp: "\<And>t p. t < length h \<Longrightarrow> t \<noteq> b \<Longrightarrow> bowner (h ! t) = None \<Longrightarrow> bparent (h ! t) = Some p \<Longrightarrow>
       bparent (h1 ! t) = Some p"
    using unlink_detaches [OF r b] by blast
  have ob: "bowner (h ! b) = None" "bowner (h1 ! b) = None" using b b1 by (auto simp: ordinary_def)
  have t1: "t < length h1" "bowner (h1 ! t) = None" "bparent (h1 ! t) = Some p"
    using t own tp len by (auto simp: ordinary_def)
  have "addAfterBlock b t h = addAfterBlock b t h1" using add_unlink(1) [OF ob u u1] .
  moreover obtain h' where "addAfterBlock b t h1 = (Inr (), h')"
    "rep h' ((\<lambda>q. removeAll b (chl q))(p := ins_after t b (removeAll b (chl p))))" "length h' = length h1"
    using link_after_refines [OF r1 _ _ _ t1 t(2)] b1 by (auto simp: ordinary_def)
  ultimately show ?thesis using that len by simp
qed

lemma addBeforeBlock_rep:
  assumes r: "rep h chl" and b: "ordinary h b" and t: "ordinary h t" "t \<noteq> b" "bparent (h ! t) = Some p"
  obtains h' where "addBeforeBlock b t h = (Inr (), h')"
    "rep h' ((\<lambda>q. removeAll b (chl q))(p := ins_before t b (removeAll b (chl p))))"
    "length h' = length h"
proof -
  obtain h1 where u: "unlink b h = (Inr (), h1)" and r1: "rep h1 (\<lambda>q. removeAll b (chl q))"
    and len: "length h1 = length h" and b1: "ordinary h1 b" "bparent (h1 ! b) = None"
    and u1: "unlink b h1 = (Inr (), h1)" and own: "\<And>x. x < length h \<Longrightarrow> bowner (h1 ! x) = bowner (h ! x)"
    and tp: "\<And>t p. t < length h \<Longrightarrow> t \<noteq> b \<Longrightarrow> bowner (h ! t) = None \<Longrightarrow> bparent (h ! t) = Some p \<Longrightarrow>
       bparent (h1 ! t) = Some p"
    using unlink_detaches [OF r b] by blast
  have ob: "bowner (h ! b) = None" "bowner (h1 ! b) = None" using b b1 by (auto simp: ordinary_def)
  have t1: "t < length h1" "bowner (h1 ! t) = None" "bparent (h1 ! t) = Some p"
    using t own tp len by (auto simp: ordinary_def)
  have "addBeforeBlock b t h = addBeforeBlock b t h1" using add_unlink(2) [OF ob u u1] .
  moreover obtain h' where "addBeforeBlock b t h1 = (Inr (), h')"
    "rep h' ((\<lambda>q. removeAll b (chl q))(p := ins_before t b (removeAll b (chl p))))" "length h' = length h1"
    using link_before_refines [OF r1 _ _ _ t1 t(2)] b1 by (auto simp: ordinary_def)
  ultimately show ?thesis using that len by simp
qed

lemma pushChild_rep:
  assumes r: "rep h chl" and p: "p < length h" and b: "ordinary h b"
  obtains h' where "pushChild p b h = (Inr (), h')"
    "rep h' ((\<lambda>q. removeAll b (chl q))(p := removeAll b (chl p) @ [b]))" "length h' = length h"
proof -
  obtain h1 where u: "unlink b h = (Inr (), h1)" and r1: "rep h1 (\<lambda>q. removeAll b (chl q))"
    and len: "length h1 = length h" and b1: "ordinary h1 b" "bparent (h1 ! b) = None"
    and "unlink b h1 = (Inr (), h1)" "\<And>x. x < length h \<Longrightarrow> bowner (h1 ! x) = bowner (h ! x)"
    "\<And>t p. t < length h \<Longrightarrow> t \<noteq> b \<Longrightarrow> bowner (h ! t) = None \<Longrightarrow> bparent (h ! t) = Some p \<Longrightarrow>
       bparent (h1 ! t) = Some p"
    using unlink_detaches [OF r b] by blast
  let ?L = "removeAll b (chl p)"
  have p1: "p < length h1" using p len by simp
  have lc: "lastChild h1 p = (if ?L = [] then None else Some (last ?L))"
    using rep_lastChild [OF r1 p1] by simp
  show ?thesis
  proof (cases "?L = []")
    case True
    have bo: "b < length h1" "bowner (h1 ! b) = None" using b1(1) by (auto simp: ordinary_def)
    obtain h' where a: "tbind (set_parent b (Some p)) (\<lambda>_. setChild p b) h1 = (Inr (), h')"
      and r': "rep h' ((\<lambda>q. removeAll b (chl q))(p := [b]))" and l': "length h' = length h1"
      using adopt_refines [OF r1 bo b1(2) p1 True] by blast
    have "pushChild p b h = (Inr (), h')" using a u lc True by (simp add: pushChild_def tbind_def)
    from that [OF this] r' l' len True show ?thesis by simp
  next
    case False
    let ?l = "last ?L"
    have l: "?l \<in> set ?L" by (rule last_in_set [OF False])
    have l1: "?l < length h1" "bowner (h1 ! ?l) = None" "bparent (h1 ! ?l) = Some p"
      using rep_child [OF r1 p1 l] by auto
    have "?l \<noteq> b" using l by simp
    obtain h' where a: "addAfterBlock b ?l h1 = (Inr (), h')"
      and r': "rep h' ((\<lambda>q. removeAll b (chl q))(p := ins_after ?l b ?L))" and l': "length h' = length h1"
      using link_after_refines [OF r1 _ _ _ l1 \<open>?l \<noteq> b\<close>] b1 by (auto simp: ordinary_def)
    have "ins_after ?l b ?L = ?L @ [b]"
      using ins_after_last [OF distinct_removeAll [OF rep_distinct(1) [OF r p]] False] .
    moreover have "pushChild p b h = (Inr (), h')" using a u lc False by (simp add: pushChild_def tbind_def)
    ultimately show ?thesis using that r' l' len by simp
  qed
qed

lemma unshiftChild_rep:
  assumes r: "rep h chl" and p: "p < length h" and b: "ordinary h b"
  obtains h' where "unshiftChild p b h = (Inr (), h')"
    "rep h' ((\<lambda>q. removeAll b (chl q))(p := b # removeAll b (chl p)))" "length h' = length h"
proof -
  obtain h1 where u: "unlink b h = (Inr (), h1)" and r1: "rep h1 (\<lambda>q. removeAll b (chl q))"
    and len: "length h1 = length h" and b1: "ordinary h1 b" "bparent (h1 ! b) = None"
    and "unlink b h1 = (Inr (), h1)" "\<And>x. x < length h \<Longrightarrow> bowner (h1 ! x) = bowner (h ! x)"
    "\<And>t p. t < length h \<Longrightarrow> t \<noteq> b \<Longrightarrow> bowner (h ! t) = None \<Longrightarrow> bparent (h ! t) = Some p \<Longrightarrow>
       bparent (h1 ! t) = Some p"
    using unlink_detaches [OF r b] by blast
  let ?L = "removeAll b (chl p)"
  have p1: "p < length h1" using p len by simp
  have fc: "firstChild h1 p = (if ?L = [] then None else Some (hd ?L))"
    using rep_firstChild [OF r1 p1] by simp
  show ?thesis
  proof (cases "?L = []")
    case True
    have bo: "b < length h1" "bowner (h1 ! b) = None" using b1(1) by (auto simp: ordinary_def)
    obtain h' where a: "tbind (set_parent b (Some p)) (\<lambda>_. setChild p b) h1 = (Inr (), h')"
      and r': "rep h' ((\<lambda>q. removeAll b (chl q))(p := [b]))" and l': "length h' = length h1"
      using adopt_refines [OF r1 bo b1(2) p1 True] by blast
    have "unshiftChild p b h = (Inr (), h')" using a u fc True by (simp add: unshiftChild_def tbind_def)
    from that [OF this] r' l' len True show ?thesis by simp
  next
    case False
    let ?f = "hd ?L"
    have f: "?f \<in> set ?L" by (rule hd_in_set [OF False])
    have f1: "?f < length h1" "bowner (h1 ! ?f) = None" "bparent (h1 ! ?f) = Some p"
      using rep_child [OF r1 p1 f] by auto
    have "?f \<noteq> b" using f by simp
    obtain h' where a: "addBeforeBlock b ?f h1 = (Inr (), h')"
      and r': "rep h' ((\<lambda>q. removeAll b (chl q))(p := ins_before ?f b ?L))" and l': "length h' = length h1"
      using link_before_refines [OF r1 _ _ _ f1 \<open>?f \<noteq> b\<close>] b1 by (auto simp: ordinary_def)
    have "ins_before ?f b ?L = b # ?L"
      using ins_before_hd [OF distinct_removeAll [OF rep_distinct(1) [OF r p]] False] .
    moreover have "addBlockBefore ?f b h1 = addBeforeBlock b ?f h1"
      using f1(2) by (simp add: addBlockBefore_def)
    moreover have "unshiftChild p b h = addBlockBefore ?f b h1"
      using u fc False by (simp add: unshiftChild_def tbind_def)
    ultimately show ?thesis using that a r' l' len by simp
  qed
qed

lemma rep_result:
  "rep h' X \<Longrightarrow> length h' = length h \<Longrightarrow> wf_tree h' \<and> (\<forall>q < length h. order h' q = X q)"
  using rep_wf_tree rep_order by fastforce

lemma tree_step_rep:
  assumes r: "rep h chl" and ok: "op_ok h op"
  shows "\<exists>h'. tree_step op h = (Inr (), h') \<and> length h' = length h \<and> rep h' (op_spec op h)"
proof -
  have o: "\<And>q. q < length h \<Longrightarrow> order h q = chl q" using rep_order [OF r] .
  show ?thesis
  proof (cases op)
    case (Unlink b)
    with ok obtain h' where "unlink b h = (Inr (), h')" "rep h' (\<lambda>q. removeAll b (chl q))"
      "length h' = length h" using unlink_detaches [OF r] by (metis op_ok.simps(1))
    with Unlink show ?thesis by (auto intro: rep_cong simp: o)
  next
    case (PushChild p b)
    with ok obtain h' where "pushChild p b h = (Inr (), h')"
      "rep h' ((\<lambda>q. removeAll b (chl q))(p := removeAll b (chl p) @ [b]))" "length h' = length h"
      using pushChild_rep [OF r] by (metis op_ok.simps(2))
    with PushChild show ?thesis by (auto intro: rep_cong simp: o)
  next
    case (UnshiftChild p b)
    with ok obtain h' where "unshiftChild p b h = (Inr (), h')"
      "rep h' ((\<lambda>q. removeAll b (chl q))(p := b # removeAll b (chl p)))" "length h' = length h"
      using unshiftChild_rep [OF r] by (metis op_ok.simps(3))
    with UnshiftChild show ?thesis by (auto intro: rep_cong simp: o)
  next
    case (AddBeforeBlock b t)
    with ok obtain p where p: "bparent (h ! t) = Some p" by auto
    with AddBeforeBlock ok obtain h' where "addBeforeBlock b t h = (Inr (), h')"
      "rep h' ((\<lambda>q. removeAll b (chl q))(p := ins_before t b (removeAll b (chl p))))"
      "length h' = length h"
      using addBeforeBlock_rep [OF r] by (metis op_ok.simps(4))
    with AddBeforeBlock p show ?thesis by (auto intro: rep_cong simp: o)
  next
    case (AddAfterBlock b t)
    with ok obtain p where p: "bparent (h ! t) = Some p" by auto
    with AddAfterBlock ok obtain h' where "addAfterBlock b t h = (Inr (), h')"
      "rep h' ((\<lambda>q. removeAll b (chl q))(p := ins_after t b (removeAll b (chl p))))"
      "length h' = length h"
      using addAfterBlock_rep [OF r] by (metis op_ok.simps(5))
    with AddAfterBlock p show ?thesis by (auto intro: rep_cong simp: o)
  qed
qed

subsection \<open>The structural operations implement the list operations\<close>

text \<open>
  C8. Every well-aimed structural operation (\<open>unlink\<close>, \<open>pushChild\<close>,
  \<open>unshiftChild\<close>, \<open>addBeforeBlock\<close>, \<open>addAfterBlock\<close>) on a well-formed arena returns
  normally, leaves the arena well-formed, and changes the ordered child lists exactly as
  the list specification \<open>op_spec\<close> says: the block is removed from wherever it was and
  inserted at the end, at the front, or before/after the target, under the target's parent.
\<close>

theorem tree_op_refines:
  assumes "wf_tree h" and "op_ok h op"
  shows "\<exists>h'. tree_step op h = (Inr (), h') \<and> wf_tree h' \<and> (\<forall>q < length h. order h' q = op_spec op h q)"
  using tree_step_rep [OF assms(1) [unfolded wf_tree_def] assms(2)] rep_result by blast

theorem tree_op_refines_witness:
  "wf_tree demo_arena \<and> op_ok demo_arena (PushChild 0 1)
   \<and> (\<exists>h'. tree_step (PushChild 0 1) demo_arena = (Inr (), h') \<and> wf_tree h'
           \<and> order h' 0 = [2, 1])"
proof -
  have w: "wf_tree demo_arena" by code_simp
  have ok: "op_ok demo_arena (PushChild 0 1)" by code_simp
  have sp: "op_spec (PushChild 0 1) demo_arena 0 = [2, 1]" by code_simp
  have "0 < length demo_arena" by (simp add: demo_arena_def)
  with tree_op_refines [OF w ok] sp w ok show ?thesis by metis
qed

text \<open>
  C9. The sibling-list invariant of the block tree holds after every call of any sequence
  of well-aimed structural operations that return normally, starting from a well-formed
  arena.
\<close>

theorem tree_reach_wf:
  assumes "tree_reach h h'" and "wf_tree h"
  shows "wf_tree h'"
  using assms
proof (induction rule: tree_reach.induct)
  case (refl h)
  then show ?case .
next
  case (step h h1 op h2)
  then have "rep h1 (order h1)" by (simp add: wf_tree_def)
  with step.hyps(2,3) show ?case using tree_step_rep rep_wf_tree by fastforce
qed

theorem tree_reach_wf_witness:
  "tree_reach demo_arena (snd (unshiftChild 0 2 demo_arena)) \<and> wf_tree demo_arena
   \<and> wf_tree (snd (unshiftChild 0 2 demo_arena))"
proof -
  have ok: "op_ok demo_arena (UnshiftChild 0 2)" by code_simp
  have st: "tree_step (UnshiftChild 0 2) demo_arena = (Inr (), snd (unshiftChild 0 2 demo_arena))"
    by code_simp
  have r: "tree_reach demo_arena (snd (unshiftChild 0 2 demo_arena))"
    by (rule tree_reach.step [OF tree_reach.refl ok st])
  have w: "wf_tree demo_arena" by code_simp
  show ?thesis using r w tree_reach_wf [OF r w] by blast
qed

subsection \<open>Error paths\<close>

lemma unlink_keeps_parentless:
  assumes r: "rep h chl" and r1: "rep h1 (\<lambda>q. removeAll b (chl q))" and len: "length h1 = length h"
    and own: "\<And>x. x < length h \<Longrightarrow> bowner (h1 ! x) = bowner (h ! x)"
    and t: "t < length h" "bowner (h ! t) = None" "bparent (h ! t) = None"
  shows "bparent (h1 ! t) = None"
proof (rule ccontr)
  assume "bparent (h1 ! t) \<noteq> None"
  then obtain q where q: "bparent (h1 ! t) = Some q" by auto
  have "q < length h1 \<and> t \<in> set (removeAll b (chl q))"
    using rep_parent(1) [OF r1 _ _ q] t own len by simp
  then have "q < length h" "t \<in> set (chl q)" using len by auto
  with rep_child(3) [OF r] t(3) show False by simp
qed

text \<open>
  C10. \<open>addBeforeBlock\<close> and \<open>addAfterBlock\<close> aimed at a block that has no parent (the
  root, or a detached block) throw \<open>TypeError\<close> at \<open>this.parent.setChild(this)\<close>; by then
  the moved block has already been unlinked, so the arena is left as \<open>unlink\<close> leaves it:
  well-formed, with the block detached and removed from its former parent's list.
\<close>

theorem add_to_parentless_error:
  assumes "wf_tree h" "ordinary h b" "ordinary h t" "t \<noteq> b" "bparent (h ! t) = None"
  shows "\<exists>h'. addBeforeBlock b t h = (Inl TypeError, h') \<and> addAfterBlock b t h = (Inl TypeError, h')
           \<and> wf_tree h' \<and> bparent (h' ! b) = None \<and> (\<forall>q < length h. order h' q = removeAll b (order h q))"
proof -
  have r: "rep h (order h)" using assms(1) by (simp add: wf_tree_def)
  obtain h1 where u: "unlink b h = (Inr (), h1)" and r1: "rep h1 (\<lambda>q. removeAll b (order h q))"
    and len: "length h1 = length h" and b1: "ordinary h1 b" "bparent (h1 ! b) = None"
    and u1: "unlink b h1 = (Inr (), h1)" and own: "\<And>x. x < length h \<Longrightarrow> bowner (h1 ! x) = bowner (h ! x)"
    and "\<And>t p. t < length h \<Longrightarrow> t \<noteq> b \<Longrightarrow> bowner (h ! t) = None \<Longrightarrow> bparent (h ! t) = Some p \<Longrightarrow>
       bparent (h1 ! t) = Some p"
    using unlink_detaches [OF r assms(2)] by blast
  have ob: "bowner (h ! b) = None" "bowner (h1 ! b) = None" "b < length h1"
    using assms(2) b1 by (auto simp: ordinary_def)
  have t1: "bparent (h1 ! t) = None" "bowner (h1 ! t) = None"
    using unlink_keeps_parentless [OF r r1 len own] assms(3,5) own by (auto simp: ordinary_def)
  have "(h1 ! b)\<lparr>bparent := None\<rparr> = h1 ! b" using b1(2) by (cases "h1 ! b") simp
  then have same: "h1[b := (h1 ! b)\<lparr>bparent := None\<rparr>] = h1" by simp
  have e: "addBeforeBlock b t h1 = (Inl TypeError, h1)" "addAfterBlock b t h1 = (Inl TypeError, h1)"
    using u1 ob t1 same b1(2)
    by (simp_all add: addBeforeBlock_def addBeforeBlock_base_def addAfterBlock_def
        addAfterBlock_base_def tbind_def getters_plain setters_plain)
  have "wf_tree h1 \<and> (\<forall>q < length h. order h1 q = removeAll b (order h q))"
    using rep_result [OF r1 len] .
  with e add_unlink [OF ob(1,2) u u1] b1(2) show ?thesis by auto
qed

theorem add_to_parentless_error_witness:
  "wf_tree demo_arena \<and> ordinary demo_arena 1 \<and> ordinary demo_arena 0 \<and> (0::nat) \<noteq> 1
   \<and> bparent (demo_arena ! 0) = None
   \<and> (\<exists>h'. addBeforeBlock 1 0 demo_arena = (Inl TypeError, h') \<and> wf_tree h' \<and> order h' 0 = [2])"
proof -
  have w: "wf_tree demo_arena" by code_simp
  have o: "ordinary demo_arena 1" "ordinary demo_arena 0" by code_simp+
  have n: "bparent (demo_arena ! 0) = None" by (simp add: demo_arena_def)
  have l: "0 < length demo_arena" "removeAll 1 (order demo_arena 0) = [2]" by code_simp+
  obtain h' where "addBeforeBlock 1 0 demo_arena = (Inl TypeError, h')" "wf_tree h'"
    "\<forall>q < length demo_arena. order h' q = removeAll 1 (order demo_arena q)"
    using add_to_parentless_error [OF w o(1) o(2) _ n] by auto
  with w o n l show ?thesis by auto
qed

end
