(* ===== verification/Objects.thy ===== *)
theory Objects
  imports Prelude
    "HOL-Library.While_Combinator"
begin

text \<open>
  The persistence encoding of \<open>src/src/modules/objects.ts\<close>. \<open>simplifyObject\<close> turns an
  object graph, which may share sub-objects and contain cycles, into a flat store: a list
  whose entries are primitives, or arrays and objects whose members are store indices;
  \<open>complicateObject\<close> rebuilds a graph from such a store. The graph lives in an explicit
  heap from addresses to objects, so that JavaScript identity (\<open>===\<close> and
  \<open>indexOf\<close> on objects) is equality of addresses. The worklist loop of
  \<open>simplifyObject\<close> is a \<open>while_option\<close>; it is proved to stop on every finite heap,
  and decoding its store is proved to give back a graph isomorphic to the input.
\<close>

section \<open>Object graphs and stores\<close>

text \<open>A JavaScript value: a primitive, or a reference to a heap object.\<close>

datatype jv = P jsval | R nat

text \<open>A heap object: an array of values, or a plain object whose \<open>for ... in\<close> order is
  the order of its key list.\<close>

datatype jobj = JArr "jv list" | JObj "(string \<times> jv) list"

type_synonym jheap = "nat \<rightharpoonup> jobj"

text \<open>An entry of the flat store after \<open>simplifyObject\<close>: a primitive, or an array or
  object of store indices.\<close>

datatype sv = SPrim jsval | SArr "nat list" | SObj "(string \<times> nat) list"

text \<open>\<open>xs.indexOf(x)\<close> with \<open>===\<close>; \<open>None\<close> stands for \<open>-1\<close>.\<close>

fun idx :: "'a list \<Rightarrow> 'a \<Rightarrow> nat option" where
  "idx [] x = None"
| "idx (y # ys) x = (if y = x then Some 0 else map_option Suc (idx ys x))"

section \<open>simplifyObject\<close>

text \<open>The loop state: \<open>store\<close>, \<open>objectMap\<close> (keyed by the integer \<open>storeIndex\<close>, the
  most recent assignment first) and \<open>processStack\<close> (its top is the last element).\<close>

record sstate =
  store :: "jv list"
  objectMap :: "(int \<times> sv) list"
  processStack :: "nat list"

text \<open>One member of the array or object being flattened: reuse its store index, or push it
  to the store, and to the stack when \<open>typeof item === 'object' && item !== null\<close>.\<close>

definition visit :: "jv list \<times> nat list \<Rightarrow> jv \<Rightarrow> (jv list \<times> nat list) \<times> nat" where
  "visit sk x = (case sk of (st, stk) \<Rightarrow>
     (case idx st x of
        Some i \<Rightarrow> ((st, stk), i)
      | None \<Rightarrow> ((st @ [x], (case x of R b \<Rightarrow> stk @ [b] | P _ \<Rightarrow> stk)), length st)))"

text \<open>The inner \<open>for\<close> loop over the members, collecting their indices.\<close>

fun visit_all :: "jv list \<times> nat list \<Rightarrow> jv list \<Rightarrow> (jv list \<times> nat list) \<times> nat list" where
  "visit_all sk [] = (sk, [])"
| "visit_all sk (x # xs) =
     (case visit sk x of (sk1, i) \<Rightarrow> (case visit_all sk1 xs of (sk2, is) \<Rightarrow> (sk2, i # is)))"

text \<open>One iteration of the \<open>while (processStack.length > 0)\<close> loop. A dangling address
  (impossible in JavaScript, excluded by \<open>closed_heap\<close> below) is popped and skipped.\<close>

definition simplify_step :: "jheap \<Rightarrow> sstate \<Rightarrow> sstate" where
  "simplify_step h s =
     (let a = last (processStack s); stk = butlast (processStack s);
          si = (case idx (store s) (R a) of Some i \<Rightarrow> int i | None \<Rightarrow> -1) in
      case h a of
        Some (JArr xs) \<Rightarrow>
          (case visit_all (store s, stk) xs of ((st', stk'), is) \<Rightarrow>
             s\<lparr>store := st', objectMap := (si, SArr is) # objectMap s, processStack := stk'\<rparr>)
      | Some (JObj kvs) \<Rightarrow>
          (case visit_all (store s, stk) (map snd kvs) of ((st', stk'), is) \<Rightarrow>
             s\<lparr>store := st', objectMap := (si, SObj (zip (map fst kvs) is)) # objectMap s,
               processStack := stk'\<rparr>)
      | None \<Rightarrow> s\<lparr>processStack := stk\<rparr>)"

text \<open>\<open>Object.keys(objectMap).forEach(key => store[key] = objectMap[key])\<close>: each flattened
  object replaces its own entry. An object entry left without a flattened form could not be
  stored as data; the result is then \<open>None\<close> (proved never to happen on a closed heap).\<close>

definition final_entry :: "sstate \<Rightarrow> nat \<Rightarrow> sv option" where
  "final_entry s i = (case map_of (objectMap s) (int i) of
      Some v \<Rightarrow> Some v
    | None \<Rightarrow> (case store s ! i of P p \<Rightarrow> Some (SPrim p) | R _ \<Rightarrow> None))"

definition assemble :: "sstate \<Rightarrow> sv list option" where
  "assemble s = (if \<forall>i \<in> set [0..<length (store s)]. final_entry s i \<noteq> None
                 then Some (map (\<lambda>i. the (final_entry s i)) [0..<length (store s)]) else None)"

definition simplifyObject :: "jheap \<Rightarrow> nat \<Rightarrow> sv list option" where
  "simplifyObject h a =
     Option.bind (while_option (\<lambda>s. processStack s \<noteq> []) (simplify_step h)
                    \<lparr>store = [R a], objectMap = [], processStack = [a]\<rparr>) assemble"

section \<open>complicateObject\<close>

text \<open>The value a member index denotes: the new object built for an object entry,
  the entry itself for a primitive, \<open>undefined\<close> past the end of the store.\<close>

definition dec :: "sv list \<Rightarrow> nat \<Rightarrow> jv" where
  "dec s k = (if k < length s then (case s ! k of SPrim p \<Rightarrow> P p | _ \<Rightarrow> R k) else P JUndefined)"

fun dec_obj :: "sv list \<Rightarrow> sv \<Rightarrow> jobj option" where
  "dec_obj s (SArr ks) = Some (JArr (map (dec s) ks))"
| "dec_obj s (SObj kvs) = Some (JObj (map (\<lambda>(k, i). (k, dec s i)) kvs))"
| "dec_obj s (SPrim _) = None"

text \<open>\<open>complicateObject(store)\<close>: a fresh object for every object entry (identified by its
  index), filled from the entry, and \<open>store[0]\<close> as the result.\<close>

definition complicateObject :: "sv list \<Rightarrow> jheap \<times> jv" where
  "complicateObject s = ((\<lambda>i. if i < length s then dec_obj s (s ! i) else None), dec s 0)"

section \<open>Heaps\<close>

fun refs :: "jobj \<Rightarrow> jv list" where
  "refs (JArr xs) = xs"
| "refs (JObj kvs) = map snd kvs"

fun map_jv :: "(nat \<Rightarrow> nat) \<Rightarrow> jv \<Rightarrow> jv" where
  "map_jv f (P p) = P p"
| "map_jv f (R b) = R (f b)"

fun map_jobj :: "(nat \<Rightarrow> nat) \<Rightarrow> jobj \<Rightarrow> jobj" where
  "map_jobj f (JArr xs) = JArr (map (map_jv f) xs)"
| "map_jobj f (JObj kvs) = JObj (map (\<lambda>(k, x). (k, map_jv f x)) kvs)"

text \<open>A heap as JavaScript has it: finitely many objects, every reference allocated.\<close>

definition closed_heap :: "jheap \<Rightarrow> bool" where
  "closed_heap h \<longleftrightarrow> finite (dom h) \<and>
     (\<forall>b ob c. h b = Some ob \<longrightarrow> R c \<in> set (refs ob) \<longrightarrow> c \<in> dom h)"

text \<open>The position of a member in the store, and the flattened form of a heap object
  against a store.\<close>

definition pos :: "jv list \<Rightarrow> jv \<Rightarrow> nat" where
  "pos st x = the (idx st x)"

fun enc :: "jv list \<Rightarrow> jobj \<Rightarrow> sv" where
  "enc st (JArr xs) = SArr (map (pos st) xs)"
| "enc st (JObj kvs) = SObj (map (\<lambda>(k, x). (k, pos st x)) kvs)"

fun addrs :: "jv list \<Rightarrow> nat list" where
  "addrs [] = []"
| "addrs (R b # xs) = b # addrs xs"
| "addrs (P _ # xs) = addrs xs"

text \<open>The loop invariant of \<open>simplifyObject\<close>: the store holds distinct values, the root
  first; the stack holds distinct stored references; every stored primitive is left alone by
  \<open>objectMap\<close>, and every stored reference that is no longer on the stack has its object
  flattened against the current store.\<close>

definition loop_inv :: "jheap \<Rightarrow> nat \<Rightarrow> sstate \<Rightarrow> bool" where
  "loop_inv h a s \<longleftrightarrow>
     distinct (store s) \<and> store s \<noteq> [] \<and> store s ! 0 = R a \<and> set (addrs (store s)) \<subseteq> dom h \<and>
     distinct (processStack s) \<and> set (processStack s) \<subseteq> set (addrs (store s)) \<and>
     (\<forall>k \<in> fst ` set (objectMap s). \<exists>i < length (store s). k = int i) \<and>
     (\<forall>i < length (store s). \<forall>p. store s ! i = P p \<longrightarrow> map_of (objectMap s) (int i) = None) \<and>
     (\<forall>i < length (store s). \<forall>b. store s ! i = R b \<longrightarrow> b \<notin> set (processStack s) \<longrightarrow>
        (\<exists>ob. h b = Some ob \<and> set (refs ob) \<subseteq> set (store s) \<and>
              map_of (objectMap s) (int i) = Some (enc (store s) ob)))"

text \<open>What the loop decreases: twice the number of objects not yet stored, plus the
  height of the stack.\<close>

definition loop_measure :: "jheap \<Rightarrow> sstate \<Rightarrow> nat" where
  "loop_measure h s = 2 * card (dom h - set (addrs (store s))) + length (processStack s)"

text \<open>The flattened store, entry by entry.\<close>

definition sv_at :: "jheap \<Rightarrow> jv list \<Rightarrow> jv \<Rightarrow> sv" where
  "sv_at h st x = (case x of P p \<Rightarrow> SPrim p | R b \<Rightarrow> enc st (the (h b)))"

text \<open>An editor snapshot shape: a script detail whose root block has one child, the
  child pointing back to its parent (a cycle) and holding an attribute map.\<close>

definition demo_graph :: jheap where
  "demo_graph = [0 \<mapsto> JObj [(''blockRoot'', R 1)],
                 1 \<mapsto> JObj [(''_children'', R 2), (''_parent'', P JNull)],
                 2 \<mapsto> JArr [R 3],
                 3 \<mapsto> JObj [(''_parent'', R 1), (''_attr'', R 4)],
                 4 \<mapsto> JObj [(''text'', P (JStr ''hi'')), (''n'', P JNull)]]"

section \<open>Lemmas: indexOf and the inner loop\<close>

named_theorems obj_simps "rules for the store and the heap"

lemma idx_None [obj_simps]: "idx xs x = None \<longleftrightarrow> x \<notin> set xs"
  by (induction xs) auto

lemma idx_Some: "x \<in> set xs \<Longrightarrow> \<exists>i. idx xs x = Some i \<and> i < length xs \<and> xs ! i = x"
proof (induction xs)
  case (Cons y ys)
  show ?case
  proof (cases "y = x")
    case False
    with Cons obtain i where "idx ys x = Some i" "i < length ys" "ys ! i = x" by auto
    with False show ?thesis by (intro exI [of _ "Suc i"]) simp
  qed simp
qed simp

lemma idx_append [obj_simps]:
  "x \<in> set xs \<Longrightarrow> idx (xs @ ys) x = idx xs x"
  by (induction xs) auto

lemma idx_nth [obj_simps]: "distinct xs \<Longrightarrow> i < length xs \<Longrightarrow> idx xs (xs ! i) = Some i"
proof (induction xs arbitrary: i)
  case (Cons y ys)
  then show ?case by (cases i) (auto simp: nth_mem)
qed simp

lemma pos_append [obj_simps]: "x \<in> set xs \<Longrightarrow> pos (xs @ ys) x = pos xs x"
  by (simp add: pos_def idx_append)

lemma idx_snoc_new: "x \<notin> set xs \<Longrightarrow> idx (xs @ x # ys) x = Some (length xs)"
  by (induction xs) auto

lemma pos_snoc_new [obj_simps]: "x \<notin> set xs \<Longrightarrow> pos (xs @ x # ys) x = length xs"
  by (simp add: pos_def idx_snoc_new)

lemma pos_nth [obj_simps]: "distinct xs \<Longrightarrow> i < length xs \<Longrightarrow> pos xs (xs ! i) = i"
  by (simp add: pos_def idx_nth)

lemma pos_bound: "x \<in> set xs \<Longrightarrow> pos xs x < length xs \<and> xs ! pos xs x = x"
  using idx_Some [of x xs] by (auto simp: pos_def)

lemma addrs_set [obj_simps]: "b \<in> set (addrs xs) \<longleftrightarrow> R b \<in> set xs"
  by (induction xs rule: addrs.induct) auto

lemma addrs_append [obj_simps]: "addrs (xs @ ys) = addrs xs @ addrs ys"
  by (induction xs rule: addrs.induct) auto

lemma addrs_distinct: "distinct xs \<Longrightarrow> distinct (addrs xs)"
  by (induction xs rule: addrs.induct) (auto simp: addrs_set)

lemma addrs_length: "length (addrs xs) \<le> length xs"
  by (induction xs rule: addrs.induct) auto

text \<open>The inner loop appends the members not yet in the store, in order, pushes the new
  references, and returns every member's final position.\<close>

lemma visit_all_spec:
  "visit_all (st, stk) xs = ((st', stk'), is) \<Longrightarrow> distinct st \<Longrightarrow>
   \<exists>new. st' = st @ new \<and> stk' = stk @ addrs new \<and> set new = set xs - set st \<and>
         distinct st' \<and> is = map (pos st') xs"
proof (induction xs arbitrary: st stk st' stk' "is")
  case Nil
  then show ?case by simp
next
  case (Cons x xs)
  show ?case
  proof (cases "x \<in> set st")
    case True
    obtain st1 stk1 is1 where r: "visit_all (st, stk) xs = ((st1, stk1), is1)"
      by (cases "visit_all (st, stk) xs") auto
    obtain i where i: "idx st x = Some i"
      using idx_Some [OF True] by blast
    have "visit (st, stk) x = ((st, stk), pos st x)"
      by (simp add: visit_def i pos_def)
    with Cons.prems r have e: "st' = st1" "stk' = stk1" "is = pos st x # is1"
      by auto
    from Cons.IH [OF r Cons.prems(2)] obtain new where
      n: "st1 = st @ new" "stk1 = stk @ addrs new" "set new = set xs - set st"
         "distinct st1" "is1 = map (pos st1) xs" by blast
    have "pos st1 x = pos st x" using True by (simp add: n(1) pos_append)
    then have "is = map (pos st') (x # xs)" by (simp add: e n(5))
    moreover have "set new = set (x # xs) - set st" using True n(3) by auto
    moreover have "st' = st @ new \<and> stk' = stk @ addrs new \<and> distinct st'"
      using e n by simp
    ultimately show ?thesis by blast
  next
    case False
    define st0 where "st0 = st @ [x]"
    define stk0 where "stk0 = stk @ addrs [x]"
    have "idx st x = None"
      using False by (simp add: idx_None)
    then have v: "visit (st, stk) x = ((st0, stk0), length st)"
      by (cases x) (simp_all add: visit_def st0_def stk0_def)
    obtain st1 stk1 is1 where r: "visit_all (st0, stk0) xs = ((st1, stk1), is1)"
      by (cases "visit_all (st0, stk0) xs") auto
    with Cons.prems v have e: "st' = st1" "stk' = stk1" "is = length st # is1"
      by auto
    have d0: "distinct st0" using Cons.prems(2) False by (simp add: st0_def)
    from Cons.IH [OF r d0] obtain new where
      n: "st1 = st0 @ new" "stk1 = stk0 @ addrs new" "set new = set xs - set st0"
         "distinct st1" "is1 = map (pos st1) xs" by blast
    have p: "pos st1 x = length st"
      using False by (simp add: n(1) st0_def pos_snoc_new)
    have a: "addrs (x # new) = addrs [x] @ addrs new"
      by (cases x) simp_all
    have "st' = st @ x # new" by (simp add: e(1) n(1) st0_def)
    moreover have "stk' = stk @ addrs (x # new)" by (simp add: e(2) n(2) stk0_def a)
    moreover have "set (x # new) = set (x # xs) - set st"
      using False n(3) by (auto simp: st0_def)
    moreover have "distinct st'" using n(4) e(1) by simp
    moreover have "is = map (pos st') (x # xs)" by (simp add: e n(5) p)
    ultimately show ?thesis by blast
  qed
qed


lemma zip_enc: "zip (map fst kvs) (map (f \<circ> snd) kvs) = map (\<lambda>(k, x). (k, f x)) kvs"
  by (induction kvs) auto

lemma enc_append [obj_simps]: "set (refs ob) \<subseteq> set st \<Longrightarrow> enc (st @ new) ob = enc st ob"
  by (cases ob) (auto simp: pos_append subset_iff)

section \<open>Lemmas: the worklist loop\<close>

text \<open>One iteration pops the last address, appends the new members of its object to the
  store and their references to the stack, and records the object's flattened form.\<close>

lemma step_shape:
  assumes "closed_heap h" "loop_inv h a s" "processStack s \<noteq> []"
  obtains ob new i0 where
    "h (last (processStack s)) = Some ob" "i0 < length (store s)"
    "store s ! i0 = R (last (processStack s))"
    "store (simplify_step h s) = store s @ new"
    "processStack (simplify_step h s) = butlast (processStack s) @ addrs new"
    "set new = set (refs ob) - set (store s)" "distinct (store s @ new)"
    "objectMap (simplify_step h s) = (int i0, enc (store s @ new) ob) # objectMap s"
proof -
  define a0 where "a0 = last (processStack s)"
  have "a0 \<in> set (addrs (store s))"
    using assms(2,3) by (auto simp: loop_inv_def a0_def)
  then have r0: "R a0 \<in> set (store s)" "a0 \<in> dom h"
    using assms(2) by (auto simp: loop_inv_def addrs_set)
  obtain i0 where i0: "idx (store s) (R a0) = Some i0" "i0 < length (store s)"
      "store s ! i0 = R a0"
    using idx_Some [OF r0(1)] by blast
  obtain ob where ob: "h a0 = Some ob" using r0(2) by blast
  obtain st' stk' "is" where v:
      "visit_all (store s, butlast (processStack s)) (refs ob) = ((st', stk'), is)"
    by (cases "visit_all (store s, butlast (processStack s)) (refs ob)") auto
  have d: "distinct (store s)" using assms(2) by (simp add: loop_inv_def)
  obtain new where n: "st' = store s @ new" "stk' = butlast (processStack s) @ addrs new"
      "set new = set (refs ob) - set (store s)" "distinct st'" "is = map (pos st') (refs ob)"
    using visit_all_spec [OF v d] by blast
  have "store (simplify_step h s) = st' \<and> processStack (simplify_step h s) = stk' \<and>
        objectMap (simplify_step h s) = (int i0, enc st' ob) # objectMap s"
  proof (cases ob)
    case (JArr xs)
    then show ?thesis
      using v n(5) by (simp add: simplify_step_def a0_def [symmetric] ob i0(1))
  next
    case (JObj kvs)
    then show ?thesis
      using v n(5) by (simp add: simplify_step_def a0_def [symmetric] ob i0(1) zip_enc)
  qed
  then show ?thesis
    using that [of ob i0 new] ob i0(2,3) n by (simp add: a0_def)
qed


lemma loop_invI:
  assumes "distinct (store s)" "store s \<noteq> []" "store s ! 0 = R a"
    "set (addrs (store s)) \<subseteq> dom h" "distinct (processStack s)"
    "set (processStack s) \<subseteq> set (addrs (store s))"
    "\<And>k. k \<in> fst ` set (objectMap s) \<Longrightarrow> \<exists>i < length (store s). k = int i"
    "\<And>i p. i < length (store s) \<Longrightarrow> store s ! i = P p \<Longrightarrow> map_of (objectMap s) (int i) = None"
    "\<And>i b. i < length (store s) \<Longrightarrow> store s ! i = R b \<Longrightarrow> b \<notin> set (processStack s) \<Longrightarrow>
       \<exists>ob. h b = Some ob \<and> set (refs ob) \<subseteq> set (store s) \<and>
             map_of (objectMap s) (int i) = Some (enc (store s) ob)"
  shows "loop_inv h a s"
  using assms unfolding loop_inv_def by blast

lemma step_inv:
  assumes c: "closed_heap h" and inv: "loop_inv h a s" and ne: "processStack s \<noteq> []"
  shows "loop_inv h a (simplify_step h s)"
proof -
  let ?st = "store s" and ?stk = "processStack s" and ?om = "objectMap s"
  obtain ob new i0 where
    ob: "h (last ?stk) = Some ob" and i0: "i0 < length ?st" "?st ! i0 = R (last ?stk)" and
    st': "store (simplify_step h s) = ?st @ new" and
    stk': "processStack (simplify_step h s) = butlast ?stk @ addrs new" and
    nw: "set new = set (refs ob) - set ?st" and d': "distinct (?st @ new)" and
    om': "objectMap (simplify_step h s) = (int i0, enc (?st @ new) ob) # ?om"
    by (rule step_shape [OF c inv ne])
  have I: "distinct ?st" "?st \<noteq> []" "?st ! 0 = R a" "set (addrs ?st) \<subseteq> dom h"
      "distinct ?stk" "set ?stk \<subseteq> set (addrs ?st)"
      "\<forall>k \<in> fst ` set ?om. \<exists>i < length ?st. k = int i"
      "\<forall>i < length ?st. \<forall>p. ?st ! i = P p \<longrightarrow> map_of ?om (int i) = None"
      "\<forall>i < length ?st. \<forall>b. ?st ! i = R b \<longrightarrow> b \<notin> set ?stk \<longrightarrow>
        (\<exists>ob. h b = Some ob \<and> set (refs ob) \<subseteq> set ?st \<and> map_of ?om (int i) = Some (enc ?st ob))"
    using inv unfolding loop_inv_def by blast+
  have sset: "set ?stk \<subseteq> insert (last ?stk) (set (butlast ?stk))"
    using ne by (cases ?stk rule: rev_cases) auto
  have refs_in: "set (refs ob) \<subseteq> set (?st @ new)" using nw by auto
  have new_dom: "set (addrs new) \<subseteq> dom h"
  proof
    fix b assume "b \<in> set (addrs new)"
    then have "R b \<in> set (refs ob)" using nw by (auto simp: addrs_set)
    then show "b \<in> dom h" using c ob by (auto simp: closed_heap_def)
  qed
  have new_fresh: "set (addrs new) \<inter> set (addrs ?st) = {}"
    using nw by (auto simp: addrs_set)
  have dstk: "distinct (butlast ?stk @ addrs new)"
  proof -
    have "set (butlast ?stk) \<subseteq> set (addrs ?st)" using I(6) by (auto dest: in_set_butlastD)
    moreover have "distinct (addrs new)" using d' by (simp add: addrs_distinct)
    ultimately show ?thesis using I(5) new_fresh by (auto simp: distinct_butlast)
  qed
  have keys_old: "map_of ?om (int i) = None" if "length ?st \<le> i" for i
  proof -
    have "int i \<notin> fst ` set ?om" using I(7) that by fastforce
    then show ?thesis by (simp add: map_of_eq_None_iff)
  qed
  have prim: "map_of ((int i0, enc (?st @ new) ob) # ?om) (int i) = None"
    if "i < length (?st @ new)" "(?st @ new) ! i = P p" for i p
  proof (cases "i < length ?st")
    case True
    then have "i \<noteq> i0" using that(2) i0 by (auto simp: nth_append)
    then show ?thesis using I(8) True that(2) by (simp add: nth_append)
  next
    case False
    then have "i \<noteq> i0" using i0(1) by simp
    then show ?thesis using keys_old False by simp
  qed
  have obj: "\<exists>ob'. h b = Some ob' \<and> set (refs ob') \<subseteq> set (?st @ new) \<and>
      map_of ((int i0, enc (?st @ new) ob) # ?om) (int i) = Some (enc (?st @ new) ob')"
    if "i < length (?st @ new)" "(?st @ new) ! i = R b" "b \<notin> set (butlast ?stk @ addrs new)"
    for i b
  proof (cases "i = i0")
    case True
    then have "b = last ?stk" using that(2) i0 by (simp add: nth_append)
    then show ?thesis using True ob refs_in by simp
  next
    case ne0: False
    show ?thesis
    proof (cases "i < length ?st")
      case True
      then have sb: "?st ! i = R b" using that(2) by (simp add: nth_append)
      have "?st ! i \<noteq> ?st ! i0"
        using nth_eq_iff_index_eq [OF I(1) True i0(1)] ne0 by simp
      then have "b \<noteq> last ?stk" using sb i0(2) by simp
      then have "b \<notin> set ?stk" using that(3) sset by auto
      then obtain ob' where "h b = Some ob'" "set (refs ob') \<subseteq> set ?st"
          "map_of ?om (int i) = Some (enc ?st ob')"
        using I(9) True sb by blast
      then show ?thesis using ne0 by (intro exI [of _ ob']) (auto simp: enc_append)
    next
      case False
      then have "i - length ?st < length new" "new ! (i - length ?st) = R b"
        using that(1,2) by (simp_all add: nth_append)
      then have "R b \<in> set new" by (metis nth_mem)
      then have "b \<in> set (addrs new)" by (simp add: addrs_set)
      then show ?thesis using that(3) by simp
    qed
  qed
  show ?thesis
  proof (rule loop_invI, unfold st' stk' om')
    show "distinct (?st @ new)" by (rule d')
    show "?st @ new \<noteq> []" using I(2) by simp
    show "(?st @ new) ! 0 = R a" using I(2,3) by (simp add: nth_append)
    show "set (addrs (?st @ new)) \<subseteq> dom h" using I(4) new_dom by (simp add: addrs_append)
    show "distinct (butlast ?stk @ addrs new)" by (rule dstk)
    show "set (butlast ?stk @ addrs new) \<subseteq> set (addrs (?st @ new))"
      using I(6) by (auto simp: addrs_append dest: in_set_butlastD)
    show "\<exists>i < length (?st @ new). k = int i"
      if "k \<in> fst ` set ((int i0, enc (?st @ new) ob) # ?om)" for k
      using that I(7) i0(1) by fastforce
    show "map_of ((int i0, enc (?st @ new) ob) # ?om) (int i) = None"
      if "i < length (?st @ new)" "(?st @ new) ! i = P p" for i p
      using prim that by blast
    show "\<exists>ob'. h b = Some ob' \<and> set (refs ob') \<subseteq> set (?st @ new) \<and>
        map_of ((int i0, enc (?st @ new) ob) # ?om) (int i) = Some (enc (?st @ new) ob')"
      if "i < length (?st @ new)" "(?st @ new) ! i = R b" "b \<notin> set (butlast ?stk @ addrs new)"
      for i b
      using obj that by blast
  qed
qed

lemma step_measure:
  assumes c: "closed_heap h" and inv: "loop_inv h a s" and ne: "processStack s \<noteq> []"
  shows "loop_measure h (simplify_step h s) < loop_measure h s"
proof -
  let ?st = "store s" and ?stk = "processStack s"
  obtain ob new i0 where
    ob: "h (last ?stk) = Some ob" and i0: "i0 < length ?st" "?st ! i0 = R (last ?stk)" and
    st': "store (simplify_step h s) = ?st @ new" and
    stk': "processStack (simplify_step h s) = butlast ?stk @ addrs new" and
    nw: "set new = set (refs ob) - set ?st" and d': "distinct (?st @ new)" and
    om': "objectMap (simplify_step h s) = (int i0, enc (?st @ new) ob) # objectMap s"
    by (rule step_shape [OF c inv ne])
  let ?U = "dom h - set (addrs ?st)" and ?n = "set (addrs new)"
  have fin: "finite ?U" using c by (simp add: closed_heap_def)
  have sub: "?n \<subseteq> ?U"
  proof
    fix b assume b: "b \<in> ?n"
    then have "R b \<in> set (refs ob)" "R b \<notin> set ?st" using nw by (auto simp: addrs_set)
    then show "b \<in> ?U" using c ob by (auto simp: closed_heap_def addrs_set)
  qed
  have len: "length (addrs new) = card ?n"
    using d' by (simp add: addrs_distinct distinct_card)
  have "dom h - set (addrs (?st @ new)) = ?U - ?n" by (auto simp: addrs_append)
  then have "card (dom h - set (addrs (?st @ new))) = card ?U - length (addrs new)"
    using card_Diff_subset [OF finite_subset [OF sub fin] sub] len by simp
  moreover have "length (addrs new) \<le> card ?U"
    using card_mono [OF fin sub] len by simp
  moreover obtain L where "length ?stk = Suc L" using ne by (cases ?stk) auto
  ultimately show ?thesis
    unfolding loop_measure_def st' stk' by simp
qed

lemma loop_inv_obj:
  "loop_inv h a s \<Longrightarrow> i < length (store s) \<Longrightarrow> store s ! i = R b \<Longrightarrow>
   b \<notin> set (processStack s) \<Longrightarrow>
   \<exists>ob. h b = Some ob \<and> set (refs ob) \<subseteq> set (store s) \<and>
         map_of (objectMap s) (int i) = Some (enc (store s) ob)"
  unfolding loop_inv_def by blast

lemma init_inv:
  "a \<in> dom h \<Longrightarrow> loop_inv h a \<lparr>store = [R a], objectMap = [], processStack = [a]\<rparr>"
  by (rule loop_invI) auto

text \<open>The worklist loop stops, in a state satisfying the invariant with an empty stack.\<close>

lemma loop_Some:
  assumes c: "closed_heap h" and a: "a \<in> dom h"
  shows "\<exists>t. while_option (\<lambda>s. processStack s \<noteq> []) (simplify_step h)
               \<lparr>store = [R a], objectMap = [], processStack = [a]\<rparr> = Some t \<and>
             loop_inv h a t \<and> processStack t = []"
proof -
  let ?s0 = "\<lparr>store = [R a], objectMap = [], processStack = [a]\<rparr>"
  have step: "loop_inv h a (simplify_step h s)" if "loop_inv h a s" "processStack s \<noteq> []" for s
    using step_inv [OF c that] .
  obtain t where t: "while_option (\<lambda>s. processStack s \<noteq> []) (simplify_step h) ?s0 = Some t"
    using measure_while_option_Some [of "loop_inv h a" "\<lambda>s. processStack s \<noteq> []"
        "simplify_step h" "loop_measure h" ?s0]
      step step_measure [OF c] init_inv [OF a] by blast
  have "loop_inv h a t"
    using while_option_rule [where P = "loop_inv h a", OF step t init_inv [OF a]] by blast
  moreover have "processStack t = []" using while_option_stop [OF t] by simp
  ultimately show ?thesis using t by blast
qed

lemma enc_not_prim [obj_simps]: "enc st ob \<noteq> SPrim p"
  by (cases ob) simp_all

text \<open>At the end of the loop every entry has its final form.\<close>

lemma assemble_final:
  assumes inv: "loop_inv h a t" and e: "processStack t = []"
  shows "assemble t = Some (map (sv_at h (store t)) (store t))"
proof -
  have fe: "final_entry t i = Some (sv_at h (store t) (store t ! i))" if i: "i < length (store t)" for i
  proof (cases "store t ! i")
    case (P p)
    then show ?thesis using inv i by (simp add: loop_inv_def final_entry_def sv_at_def)
  next
    case (R b)
    then obtain ob where "h b = Some ob" "map_of (objectMap t) (int i) = Some (enc (store t) ob)"
      using loop_inv_obj [OF inv i] e by auto
    then show ?thesis using R by (simp add: final_entry_def sv_at_def)
  qed
  then have "map (\<lambda>i. the (final_entry t i)) [0..<length (store t)] =
             map (sv_at h (store t)) (store t)"
    by (intro nth_equalityI) simp_all
  then show ?thesis using fe by (simp add: assemble_def)
qed

text \<open>The store \<open>simplifyObject\<close> returns: one entry per distinct value met, the root
  first, each object flattened against the store, every stored object's members stored.\<close>

lemma simplify_result:
  assumes c: "closed_heap h" and a: "a \<in> dom h"
  obtains st where "simplifyObject h a = Some (map (sv_at h st) st)" "distinct st"
    "st \<noteq> []" "st ! 0 = R a"
    "\<And>b. R b \<in> set st \<Longrightarrow> \<exists>ob. h b = Some ob \<and> set (refs ob) \<subseteq> set st"
proof -
  obtain t where t: "while_option (\<lambda>s. processStack s \<noteq> []) (simplify_step h)
               \<lparr>store = [R a], objectMap = [], processStack = [a]\<rparr> = Some t"
    and inv: "loop_inv h a t" and e: "processStack t = []"
    using loop_Some [OF c a] by blast
  have "simplifyObject h a = Some (map (sv_at h (store t)) (store t))"
    using assemble_final [OF inv e] t by (simp add: simplifyObject_def)
  moreover have "\<exists>ob. h b = Some ob \<and> set (refs ob) \<subseteq> set (store t)"
    if r: "R b \<in> set (store t)" for b
  proof -
    obtain i where i: "i < length (store t)" "store t ! i = R b"
      using r unfolding in_set_conv_nth by blast
    show ?thesis using loop_inv_obj [OF inv i] e by auto
  qed
  ultimately show ?thesis using that inv unfolding loop_inv_def by blast
qed

section \<open>Lemmas: decoding the store\<close>

lemma dec_pos:
  assumes d: "distinct st" and x: "x \<in> set st"
    and obj: "\<And>b. R b \<in> set st \<Longrightarrow> \<exists>ob. h b = Some ob \<and> set (refs ob) \<subseteq> set st"
  shows "dec (map (sv_at h st) st) (pos st x) = map_jv (\<lambda>b. pos st (R b)) x"
proof -
  have k: "pos st x < length st" "st ! pos st x = x" using pos_bound [OF x] by auto
  show ?thesis
  proof (cases x)
    case (P p)
    then show ?thesis using k by (simp add: dec_def sv_at_def)
  next
    case (R b)
    then obtain ob where "h b = Some ob" using obj x by blast
    then show ?thesis using k R by (cases ob) (simp_all add: dec_def sv_at_def)
  qed
qed

lemma dec_obj_enc:
  "(\<And>x. x \<in> set (refs ob) \<Longrightarrow> dec s (pos st x) = map_jv f x) \<Longrightarrow>
   dec_obj s (enc st ob) = Some (map_jobj f ob)"
  by (cases ob) (force simp: image_iff)+

text \<open>The decoded store: the object stored at index \<open>pos st (R b)\<close> is the object at
  \<open>b\<close> with each reference renamed to the position of its target.\<close>

lemma decode_inj: "inj_on (\<lambda>b. pos st (R b)) {b. R b \<in> set st}"
proof (rule inj_onI)
  fix b c assume bc: "b \<in> {b. R b \<in> set st}" "c \<in> {b. R b \<in> set st}"
    "pos st (R b) = pos st (R c)"
  have "R b = st ! pos st (R b)" using pos_bound [of "R b" st] bc(1) by simp
  also have "\<dots> = st ! pos st (R c)" using bc(3) by (rule arg_cong)
  also have "\<dots> = R c" using pos_bound [of "R c" st] bc(2) by simp
  finally show "b = c" by simp
qed

lemma decode_obj:
  assumes d: "distinct st"
    and obj: "\<And>b. R b \<in> set st \<Longrightarrow> \<exists>ob. h b = Some ob \<and> set (refs ob) \<subseteq> set st"
    and b: "R b \<in> set st"
  shows "fst (complicateObject (map (sv_at h st) st)) (pos st (R b)) =
         map_option (map_jobj (\<lambda>b. pos st (R b))) (h b)"
proof -
  let ?s = "map (sv_at h st) st"
  obtain ob where ob: "h b = Some ob" "set (refs ob) \<subseteq> set st" using obj [OF b] by blast
  have pb: "pos st (R b) < length st" "st ! pos st (R b) = R b" using pos_bound [OF b] by auto
  have "?s ! pos st (R b) = enc st ob" using pb ob by (simp add: sv_at_def)
  moreover have "dec_obj ?s (enc st ob) = Some (map_jobj (\<lambda>b. pos st (R b)) ob)"
    using ob(2) dec_pos [where h = h, OF d _ obj] by (intro dec_obj_enc) blast
  ultimately show ?thesis using pb ob by (simp add: complicateObject_def)
qed

lemma decode_dom:
  assumes d: "distinct st"
    and obj: "\<And>b. R b \<in> set st \<Longrightarrow> \<exists>ob. h b = Some ob \<and> set (refs ob) \<subseteq> set st"
  shows "dom (fst (complicateObject (map (sv_at h st) st))) =
         (\<lambda>b. pos st (R b)) ` {b. R b \<in> set st}"
proof (rule set_eqI)
  fix i
  let ?s = "map (sv_at h st) st"
  show "i \<in> dom (fst (complicateObject ?s)) \<longleftrightarrow> i \<in> (\<lambda>b. pos st (R b)) ` {b. R b \<in> set st}"
  proof
    assume "i \<in> dom (fst (complicateObject ?s))"
    then have i: "i < length st" and dn: "dec_obj ?s (?s ! i) \<noteq> None"
      by (auto simp: complicateObject_def split: if_splits)
    obtain b where b: "st ! i = R b"
      using dn i by (cases "st ! i") (auto simp: sv_at_def)
    have "R b \<in> set st" using b i by (metis nth_mem)
    moreover have "pos st (R b) = i" using pos_nth [OF d i] b by simp
    ultimately show "i \<in> (\<lambda>b. pos st (R b)) ` {b. R b \<in> set st}" by blast
  next
    assume "i \<in> (\<lambda>b. pos st (R b)) ` {b. R b \<in> set st}"
    then obtain b where "R b \<in> set st" "i = pos st (R b)" by blast
    then show "i \<in> dom (fst (complicateObject ?s))"
      using decode_obj [where h = h, OF d obj] obj by force
  qed
qed

lemma decode_root:
  assumes d: "distinct st"
    and obj: "\<And>b. R b \<in> set st \<Longrightarrow> \<exists>ob. h b = Some ob \<and> set (refs ob) \<subseteq> set st"
    and ne: "st \<noteq> []" and st0: "st ! 0 = R a"
  shows "snd (complicateObject (map (sv_at h st) st)) = R (pos st (R a))"
proof -
  have a: "R a \<in> set st" using ne st0 nth_mem [of 0 st] by simp
  have "pos st (R a) = 0" using pos_nth [OF d, of 0] ne st0 by simp
  then show ?thesis using dec_pos [where h = h, OF d a obj] by (simp add: complicateObject_def)
qed

section \<open>Termination and round trip\<close>

text \<open>
  C11. \<open>simplifyObject\<close> returns on every object graph JavaScript can build (finitely many
  objects, every reference allocated), cycles and shared sub-objects included: its worklist
  loop stops, and every object it stored has its flattened form in the result.
\<close>

theorem simplifyObject_terminates:
  assumes "closed_heap h" and "a \<in> dom h"
  shows "simplifyObject h a \<noteq> None"
  by (rule simplify_result [OF assms]) simp

theorem simplifyObject_terminates_witness:
  "closed_heap demo_graph \<and> simplifyObject demo_graph 0 \<noteq> None"
proof -
  have c: "closed_heap demo_graph"
    by (auto simp: closed_heap_def demo_graph_def split: if_splits)
  have "0 \<in> dom demo_graph" by (simp add: demo_graph_def)
  then show ?thesis using simplifyObject_terminates [OF c] c by blast
qed

text \<open>
  C12. Round trip of the persistence encoding: decoding the store that \<open>simplifyObject\<close>
  produces with \<open>complicateObject\<close> gives back the object graph up to the choice of
  addresses. There is a set \<open>D\<close> of objects, containing the root and closed under
  references, and a one-to-one renaming \<open>f\<close> of \<open>D\<close>, such that the decoded heap holds
  exactly the renamed objects of \<open>D\<close>, each with the same keys, order and primitive values
  and with its references renamed, and the decoded root is the renamed root. Sharing and
  cycles are therefore preserved.
\<close>

theorem simplify_complicate_roundtrip:
  assumes c: "closed_heap h" and a: "a \<in> dom h"
  shows "\<exists>s D f. simplifyObject h a = Some s \<and> a \<in> D \<and>
           (\<forall>b\<in>D. \<exists>ob. h b = Some ob \<and> (\<forall>c. R c \<in> set (refs ob) \<longrightarrow> c \<in> D)) \<and>
           inj_on f D \<and> snd (complicateObject s) = R (f a) \<and>
           dom (fst (complicateObject s)) = f ` D \<and>
           (\<forall>b\<in>D. fst (complicateObject s) (f b) = map_option (map_jobj f) (h b))"
proof (rule simplify_result [OF c a])
  fix st assume r: "simplifyObject h a = Some (map (sv_at h st) st)" and d: "distinct st"
    and ne: "st \<noteq> []" and st0: "st ! 0 = R a"
    and obj: "\<And>b. R b \<in> set st \<Longrightarrow> \<exists>ob. h b = Some ob \<and> set (refs ob) \<subseteq> set st"
  let ?D = "{b. R b \<in> set st}" and ?f = "\<lambda>b. pos st (R b)"
  have aD: "a \<in> ?D" using ne st0 nth_mem [of 0 st] by simp
  have closedD: "\<forall>b\<in>?D. \<exists>ob. h b = Some ob \<and> (\<forall>c. R c \<in> set (refs ob) \<longrightarrow> c \<in> ?D)"
    using obj by fastforce
  have img: "\<forall>b\<in>?D. fst (complicateObject (map (sv_at h st) st)) (?f b) =
                    map_option (map_jobj ?f) (h b)"
    using decode_obj [where h = h, OF d obj] by blast
  show ?thesis
  proof (rule exI [where x = "map (sv_at h st) st"], rule exI [where x = ?D],
      rule exI [where x = ?f], intro conjI)
    show "simplifyObject h a = Some (map (sv_at h st) st)" by (rule r)
    show "a \<in> ?D" by (rule aD)
    show "\<forall>b\<in>?D. \<exists>ob. h b = Some ob \<and> (\<forall>c. R c \<in> set (refs ob) \<longrightarrow> c \<in> ?D)"
      by (rule closedD)
    show "inj_on ?f ?D" by (rule decode_inj)
    show "snd (complicateObject (map (sv_at h st) st)) = R (?f a)"
      by (rule decode_root [where h = h, OF d obj ne st0])
    show "dom (fst (complicateObject (map (sv_at h st) st))) = ?f ` ?D"
      by (rule decode_dom [where h = h, OF d obj])
    show "\<forall>b\<in>?D. fst (complicateObject (map (sv_at h st) st)) (?f b) =
                 map_option (map_jobj ?f) (h b)"
      by (rule img)
  qed
qed

theorem simplify_complicate_roundtrip_witness:
  "closed_heap demo_graph \<and> 0 \<in> dom demo_graph \<and>
   (\<exists>s D f. simplifyObject demo_graph 0 = Some s \<and> (0::nat) \<in> D \<and> inj_on f D \<and>
      snd (complicateObject s) = R (f 0) \<and> dom (fst (complicateObject s)) = f ` D)"
proof -
  have c: "closed_heap demo_graph"
    by (auto simp: closed_heap_def demo_graph_def split: if_splits)
  have a: "0 \<in> dom demo_graph" by (simp add: demo_graph_def)
  obtain s D f where r: "simplifyObject demo_graph 0 = Some s \<and> 0 \<in> D \<and>
      (\<forall>b\<in>D. \<exists>ob. demo_graph b = Some ob \<and> (\<forall>c. R c \<in> set (refs ob) \<longrightarrow> c \<in> D)) \<and>
      inj_on f D \<and> snd (complicateObject s) = R (f 0) \<and>
      dom (fst (complicateObject s)) = f ` D \<and>
      (\<forall>b\<in>D. fst (complicateObject s) (f b) = map_option (map_jobj f) (demo_graph b))"
    using simplify_complicate_roundtrip [OF c a] by blast
  then have rs: "simplifyObject demo_graph 0 = Some s" "0 \<in> D" "inj_on f D"
    "snd (complicateObject s) = R (f 0)" "dom (fst (complicateObject s)) = f ` D"
    by simp_all
  have "\<exists>s D f. simplifyObject demo_graph 0 = Some s \<and> (0::nat) \<in> D \<and> inj_on f D \<and>
      snd (complicateObject s) = R (f 0) \<and> dom (fst (complicateObject s)) = f ` D"
    using rs by blast
  then show ?thesis using c a by simp
qed

end
