(* ===== verification/Host.thy ===== *)
theory Host
  imports Prelude
begin

text \<open>
  The host side of suspend and resume. The page runs each script through the wrapper
  \<open>__SCRIPTS__[id](stepList = [1], externalVars = {}, isRestore = false)\<close> that
  \<open>background.js\<close> generates; the wrapper builds \<open>__VAR__\<close> (\<open>Script.generateJs\<close>) and calls
  \<open>__RegisterExecute__\<close> of \<open>src/src/entries/page_script.js\<close>, which records the run in the
  page's \<open>__LocalScript__\<close> and, for a fresh run, registers it with the background. The
  background (\<open>src/src/entries/background.js\<close>) keeps \<open>Script.StateMap\<close> in session
  storage: per script id, the tab that owns the run and, while it is suspended, its position
  and variables. A page archives its runs on \<open>beforeunload\<close> and restores them on
  \<open>pageshow\<close>; \<open>focusScript\<close> moves a run from one tab to another. Messages between the
  page and the background are calls here; a failing call is a value of \<open>herror\<close>.
\<close>

section \<open>Variables the page keeps\<close>

text \<open>A value of \<open>__VAR__\<close>: a primitive, an object (arrays, elements, \<open>null\<close> is a
  primitive here) or a function.\<close>

datatype vval = VPrim jsval | VObj | VFun

type_synonym vars = "(string \<times> vval) list"

text \<open>\<open>typeof value\<close> is none of \<open>function\<close>, \<open>object\<close> (which \<open>null\<close> is),
  \<open>undefined\<close>, \<open>symbol\<close>, \<open>bigint\<close>.\<close>

fun keep_var :: "vval \<Rightarrow> bool" where
  "keep_var (VPrim (JBool _)) = True"
| "keep_var (VPrim (JNum _)) = True"
| "keep_var (VPrim (JStr _)) = True"
| "keep_var _ = False"

text \<open>\<open>varsFilter(vars)\<close>: the kept own properties, then \<open>delete varsCopy.__ID__\<close>.\<close>

definition varsFilter :: "vars \<Rightarrow> vars" where
  "varsFilter vs = adel ''__ID__'' (filter (\<lambda>(k, v). keep_var v) vs)"

text \<open>\<open>const __VAR__={__ID__:'id', alias: null, ..., ...externalVars}\<close> of
  \<open>Script.generateJs\<close>: property definitions in order, a repeated key keeping its place.\<close>

definition var_init :: "string \<Rightarrow> string list \<Rightarrow> vars \<Rightarrow> vars" where
  "var_init sid als ext =
     fold (\<lambda>(k, v) acc. aupd k v acc)
       ((''__ID__'', VPrim (JStr sid)) # map (\<lambda>a. (a, VPrim JNull)) als @ ext) []"

section \<open>The background's state map\<close>

record entry =
  eid :: string
  etab :: nat
  esteps :: "int list option"
  evars :: "vars option"

type_synonym statemap = "(string \<times> entry) list"

datatype herror = SyntaxError | TypeError | UnexpectedTarget

text \<open>\<open>stateMap[id]?.tabId === tabId\<close>.\<close>

definition owned_by :: "statemap \<Rightarrow> string \<Rightarrow> nat \<Rightarrow> bool" where
  "owned_by m sid t = (case map_of m sid of Some e \<Rightarrow> etab e = t | None \<Rightarrow> False)"

definition RegisterExecute :: "string \<Rightarrow> nat \<Rightarrow> statemap \<Rightarrow> statemap" where
  "RegisterExecute sid t m = aupd sid \<lparr>eid = sid, etab = t, esteps = None, evars = None\<rparr> m"

definition ArchiveState :: "nat \<Rightarrow> string \<Rightarrow> int list \<Rightarrow> vars \<Rightarrow> statemap \<Rightarrow> statemap" where
  "ArchiveState t sid st vs m =
     (if owned_by m sid t then aupd sid \<lparr>eid = sid, etab = t, esteps = Some st, evars = Some vs\<rparr> m
      else m)"

definition ArchiveStates :: "nat \<Rightarrow> (string \<times> int list \<times> vars) list \<Rightarrow> statemap \<Rightarrow> statemap" where
  "ArchiveStates t xs m = fold (\<lambda>(sid, st, vs). ArchiveState t sid st vs) xs m"

text \<open>\<open>step.tabId === sender.tab.id && step.steps && step.vars\<close>.\<close>

definition restorable :: "nat \<Rightarrow> entry \<Rightarrow> bool" where
  "restorable t e \<longleftrightarrow> etab e = t \<and> esteps e \<noteq> None \<and> evars e \<noteq> None"

text \<open>\<open>delete state.steps; delete state.vars\<close>.\<close>

definition cleared :: "entry \<Rightarrow> entry" where
  "cleared e = e\<lparr>esteps := None, evars := None\<rparr>"

definition RestoreStates :: "nat \<Rightarrow> statemap \<Rightarrow> entry list \<times> statemap" where
  "RestoreStates t m =
     (filter (restorable t) (map snd m),
      map (\<lambda>(k, e). (k, if restorable t e then cleared e else e)) m)"

text \<open>\<open>Script.RestoreState\<close> checks no tab, and on an unknown id
  \<open>JSON.parse(JSON.stringify(undefined))\<close> throws a \<open>SyntaxError\<close>.\<close>

definition RestoreState :: "string \<Rightarrow> statemap \<Rightarrow> herror + entry \<times> statemap" where
  "RestoreState sid m =
     (case map_of m sid of None \<Rightarrow> Inl SyntaxError | Some e \<Rightarrow> Inr (e, aupd sid (cleared e) m))"

definition FinishExecute :: "nat \<Rightarrow> string \<Rightarrow> statemap \<Rightarrow> statemap" where
  "FinishExecute t sid m = (if owned_by m sid t then adel sid m else m)"

text \<open>\<open>chrome.tabs.onRemoved\<close>: \<open>states\<close> is the list of the booleans
  \<open>state.tabId === tabId\<close>, and \<open>delete stateMap[state.id]\<close> deletes the key
  \<open>"undefined"\<close> once per boolean.\<close>

definition TabRemoved :: "nat \<Rightarrow> statemap \<Rightarrow> statemap" where
  "TabRemoved t m = fold (\<lambda>_. adel ''undefined'') (map (\<lambda>(k, e). etab e = t) m) m"

section \<open>The page\<close>

record hstate =
  smap :: statemap
  local :: "nat \<Rightarrow> (string \<times> int list \<times> vars) list"

text \<open>The installed scripts, \<open>__SCRIPTS__\<close>: each id with the aliases its \<open>__VAR__\<close>
  declares.\<close>

type_synonym catalog = "string \<rightharpoonup> string list"

text \<open>\<open>__RegisterExecute__(id, steps, vars, isRestore)\<close> in tab \<open>t\<close>.\<close>

definition page_RegisterExecute ::
  "nat \<Rightarrow> string \<Rightarrow> int list \<Rightarrow> vars \<Rightarrow> bool \<Rightarrow> hstate \<Rightarrow> hstate" where
  "page_RegisterExecute t sid st vs isRestore h =
     (let h1 = (if isRestore then h else h\<lparr>smap := RegisterExecute sid t (smap h)\<rparr>);
          st' = (if isRestore then upd_last (\<lambda>x. x + 1) st else st) in
      h1\<lparr>local := (local h1)(t := aupd sid (st', vs) (local h1 t))\<rparr>)"

text \<open>\<open>__SCRIPTS__[id]?.(stepList, externalVars, isRestore)\<close>: the wrapper's first
  statements.\<close>

definition call_script ::
  "catalog \<Rightarrow> nat \<Rightarrow> string \<Rightarrow> int list \<Rightarrow> vars \<Rightarrow> bool \<Rightarrow> hstate \<Rightarrow> hstate" where
  "call_script cat t sid st ext isRestore h =
     (case cat sid of
        None \<Rightarrow> h
      | Some als \<Rightarrow> page_RegisterExecute t sid st (var_init sid als ext) isRestore h)"

text \<open>The wrapper's default parameters \<open>stepList = [1]\<close> and \<open>externalVars = {}\<close>, for
  a destructured property that is absent.\<close>

definition steps_arg :: "int list option \<Rightarrow> int list" where
  "steps_arg so = (case so of Some st \<Rightarrow> st | None \<Rightarrow> [1])"

definition vars_arg :: "vars option \<Rightarrow> vars" where
  "vars_arg vo = (case vo of Some vs \<Rightarrow> vs | None \<Rightarrow> [])"

definition page_FinishExecute :: "nat \<Rightarrow> string \<Rightarrow> hstate \<Rightarrow> hstate" where
  "page_FinishExecute t sid h =
     h\<lparr>local := (local h)(t := adel sid (local h t)), smap := FinishExecute t sid (smap h)\<rparr>"

text \<open>\<open>archiveScripts\<close> (on \<open>beforeunload\<close>): the message is built before the local
  runs are deleted.\<close>

definition archiveScripts :: "nat \<Rightarrow> hstate \<Rightarrow> hstate" where
  "archiveScripts t h =
     h\<lparr>smap := ArchiveStates t (map (\<lambda>(sid, st, vs). (sid, st, varsFilter vs)) (local h t)) (smap h),
       local := (local h)(t := [])\<rparr>"

definition archiveScript :: "nat \<Rightarrow> string \<Rightarrow> hstate \<Rightarrow> hstate" where
  "archiveScript t sid h =
     (case map_of (local h t) sid of
        None \<Rightarrow> h
      | Some (st, vs) \<Rightarrow>
          h\<lparr>smap := ArchiveState t sid st (varsFilter vs) (smap h),
            local := (local h)(t := adel sid (local h t))\<rparr>)"

text \<open>\<open>restoreScripts\<close> (on \<open>pageshow\<close>).\<close>

definition restore_one :: "catalog \<Rightarrow> nat \<Rightarrow> entry \<Rightarrow> hstate \<Rightarrow> hstate" where
  "restore_one cat t e h =
     (if map_of (local h t) (eid e) \<noteq> None then h
      else call_script cat t (eid e) (steps_arg (esteps e)) (vars_arg (evars e)) True h)"

definition restoreScripts :: "catalog \<Rightarrow> nat \<Rightarrow> hstate \<Rightarrow> hstate" where
  "restoreScripts cat t h =
     (case RestoreStates t (smap h) of (sel, m') \<Rightarrow> fold (restore_one cat t) sel (h\<lparr>smap := m'\<rparr>))"

definition restoreScript :: "catalog \<Rightarrow> nat \<Rightarrow> string \<Rightarrow> hstate \<Rightarrow> herror + hstate" where
  "restoreScript cat t sid h =
     (if map_of (local h t) sid \<noteq> None then Inr h
      else (case RestoreState sid (smap h) of
              Inl err \<Rightarrow> Inl err
            | Inr (e, m') \<Rightarrow>
                Inr (call_script cat t sid (steps_arg (esteps e)) (vars_arg (evars e)) True
                       (h\<lparr>smap := m'\<rparr>))))"

text \<open>\<open>focusScript(id)\<close> with the tab it settles on: archive in the owner's page, hand
  the entry to the new tab, restore there. The owner's tab is \<open>undefined\<close> for an unknown
  id, and \<open>Messages.send\<close> rejects the target \<open>"tab:undefined"\<close>; a failure inside the new
  tab's page is caught by the messaging layer.\<close>

definition focusScript :: "catalog \<Rightarrow> string \<Rightarrow> nat \<Rightarrow> hstate \<Rightarrow> herror + hstate" where
  "focusScript cat sid t' h =
     (case map_of (smap h) sid of
        None \<Rightarrow> Inl UnexpectedTarget
      | Some e \<Rightarrow>
          (let h1 = archiveScript (etab e) sid h in
           case map_of (smap h1) sid of
             None \<Rightarrow> Inl TypeError
           | Some e1 \<Rightarrow>
               (let h2 = h1\<lparr>smap := aupd sid (e1\<lparr>etab := t'\<rparr>) (smap h1)\<rparr> in
                case restoreScript cat t' sid h2 of Inl _ \<Rightarrow> Inr h2 | Inr h3 \<Rightarrow> Inr h3)))"

section \<open>Runs of the host\<close>

datatype hevent =
    Execute nat string
  | Progress nat string "int list"
  | Finish nat string
  | Unload nat
  | Show nat
  | FocusScript string nat
  | TabClosed nat

text \<open>One event: a fresh run (\<open>execute_script\<close>), the driver moving a running script to
  a new position (it mutates the array the local record holds), \<open>__FinishExecute__\<close>,
  \<open>beforeunload\<close>, \<open>pageshow\<close>, a \<open>Script.Focus\<close> request, a closed tab (its page is
  gone). A request that throws leaves the state as it was.\<close>

fun host_step :: "catalog \<Rightarrow> hevent \<Rightarrow> hstate \<Rightarrow> hstate" where
  "host_step cat (Execute t sid) h = call_script cat t sid [1] [] False h"
| "host_step cat (Progress t sid st) h =
     (case map_of (local h t) sid of
        None \<Rightarrow> h
      | Some (_, vs) \<Rightarrow> h\<lparr>local := (local h)(t := aupd sid (st, vs) (local h t))\<rparr>)"
| "host_step cat (Finish t sid) h = page_FinishExecute t sid h"
| "host_step cat (Unload t) h = archiveScripts t h"
| "host_step cat (Show t) h = restoreScripts cat t h"
| "host_step cat (FocusScript sid t) h =
     (case focusScript cat sid t h of Inl _ \<Rightarrow> h | Inr h' \<Rightarrow> h')"
| "host_step cat (TabClosed t) h = h\<lparr>smap := TabRemoved t (smap h), local := (local h)(t := [])\<rparr>"

definition host_run :: "catalog \<Rightarrow> hevent list \<Rightarrow> hstate \<Rightarrow> hstate" where
  "host_run cat evs h = fold (host_step cat) evs h"

definition host_init :: hstate where
  "host_init = \<lparr>smap = [], local = (\<lambda>_. [])\<rparr>"

text \<open>The invariant of the state map: one entry per script id, each entry naming its
  own id and holding a position exactly when it holds variables.\<close>

definition smap_ok :: "statemap \<Rightarrow> bool" where
  "smap_ok m \<longleftrightarrow> distinct (map fst m) \<and>
     (\<forall>(k, e) \<in> set m. eid e = k \<and> (esteps e = None \<longleftrightarrow> evars e = None))"

text \<open>With it, one local record per id in each tab.\<close>

definition host_inv :: "hstate \<Rightarrow> bool" where
  "host_inv h \<longleftrightarrow> smap_ok (smap h) \<and> (\<forall>t. distinct (map fst (local h t)))"

text \<open>A page with one installed script \<open>s1\<close> declaring the alias \<open>a\<close>, running in
  tab 1 at position \<open>[3, 2]\<close>.\<close>

definition demo_catalog :: catalog where
  "demo_catalog = [''s1'' \<mapsto> [''a'']]"

definition demo_host :: hstate where
  "demo_host = host_run demo_catalog [Execute 1 ''s1'', Progress 1 ''s1'' [3, 2]] host_init"

section \<open>Lemmas: the state map\<close>

named_theorems host_simps "evaluation rules of the host's handlers"

lemma smap_ok_aupd:
  assumes "smap_ok m" "eid e = k" "esteps e = None \<longleftrightarrow> evars e = None"
  shows "smap_ok (aupd k e m)"
  using assms set_aupd [of k e m] unfolding smap_ok_def by auto

lemma smap_ok_adel: "smap_ok m \<Longrightarrow> smap_ok (adel k m)"
  unfolding smap_ok_def by (auto simp: adel_def distinct_map_filter)

lemma smap_ok_entry:
  "smap_ok m \<Longrightarrow> map_of m k = Some e \<Longrightarrow> eid e = k \<and> (esteps e = None \<longleftrightarrow> evars e = None)"
  unfolding smap_ok_def by (auto dest: map_of_SomeD)

lemma smap_ok_RegisterExecute: "smap_ok m \<Longrightarrow> smap_ok (RegisterExecute sid t m)"
  by (simp add: RegisterExecute_def smap_ok_aupd)

lemma map_of_ArchiveState [host_simps]:
  "map_of (ArchiveState t sid st vs m) k =
     (if k = sid \<and> owned_by m sid t
      then Some \<lparr>eid = sid, etab = t, esteps = Some st, evars = Some vs\<rparr> else map_of m k)"
  by (auto simp: ArchiveState_def)

lemma owned_by_ArchiveState [host_simps]:
  "k \<noteq> sid \<Longrightarrow> owned_by (ArchiveState t sid st vs m) k u = owned_by m k u"
  by (simp add: owned_by_def map_of_ArchiveState)

lemma smap_ok_ArchiveState: "smap_ok m \<Longrightarrow> smap_ok (ArchiveState t sid st vs m)"
  by (simp add: ArchiveState_def smap_ok_aupd)

lemma smap_ok_ArchiveStates: "smap_ok m \<Longrightarrow> smap_ok (ArchiveStates t xs m)"
proof (induction xs arbitrary: m)
  case (Cons x xs)
  then show ?case by (cases x) (simp add: ArchiveStates_def smap_ok_ArchiveState)
qed (simp add: ArchiveStates_def)

text \<open>Archiving a list of runs with distinct ids: each run's entry is replaced when the
  tab owns it.\<close>

lemma map_of_ArchiveStates:
  "distinct (map fst xs) \<Longrightarrow>
   map_of (ArchiveStates t xs m) k =
     (case map_of xs k of
        Some (st, vs) \<Rightarrow>
          if owned_by m k t then Some \<lparr>eid = k, etab = t, esteps = Some st, evars = Some vs\<rparr>
          else map_of m k
      | None \<Rightarrow> map_of m k)"
proof (induction xs arbitrary: m)
  case Nil
  then show ?case by (simp add: ArchiveStates_def)
next
  case (Cons x xs)
  obtain sid st vs where x: "x = (sid, st, vs)" by (cases x) auto
  let ?m1 = "ArchiveState t sid st vs m"
  have d: "distinct (map fst xs)" "sid \<notin> fst ` set xs" using Cons.prems x by auto
  have r: "ArchiveStates t (x # xs) m = ArchiveStates t xs ?m1"
    by (simp add: ArchiveStates_def x)
  show ?case
  proof (cases "k = sid")
    case True
    then have "map_of xs k = None" using d(2) by (simp add: map_of_eq_None_iff)
    then show ?thesis using Cons.IH [OF d(1), of ?m1] True r x
      by (simp add: map_of_ArchiveState)
  next
    case False
    have m1k: "map_of ?m1 k = map_of m k" using False by (simp add: map_of_ArchiveState)
    have o1: "owned_by ?m1 k t = owned_by m k t" using False by (rule owned_by_ArchiveState)
    have mx: "map_of (x # xs) k = map_of xs k" using False x by simp
    have "map_of (ArchiveStates t xs ?m1) k =
       (case map_of xs k of
          Some (st', vs') \<Rightarrow>
            if owned_by m k t then Some \<lparr>eid = k, etab = t, esteps = Some st', evars = Some vs'\<rparr>
            else map_of m k
        | None \<Rightarrow> map_of m k)"
      using Cons.IH [OF d(1), of ?m1] unfolding m1k o1 .
    then show ?thesis unfolding r mx .
  qed
qed

lemma smap_ok_RestoreStates: "smap_ok m \<Longrightarrow> smap_ok (snd (RestoreStates t m))"
  unfolding smap_ok_def RestoreStates_def
  by (auto simp: cleared_def comp_def case_prod_beta split: if_splits)

lemma map_of_RestoreStates [host_simps]:
  "map_of (snd (RestoreStates t m)) k =
     map_option (\<lambda>e. if restorable t e then cleared e else e) (map_of m k)"
  by (induction m) (auto simp: RestoreStates_def)

lemma smap_ok_RestoreState:
  assumes ok: "smap_ok m" and r: "RestoreState sid m = Inr (e, m')"
  shows "smap_ok m'"
proof -
  from r obtain e0 where e0: "map_of m sid = Some e0" "m' = aupd sid (cleared e0) m"
    by (auto simp: RestoreState_def split: option.splits)
  have "eid e0 = sid" using smap_ok_entry [OF ok e0(1)] by simp
  then show ?thesis using ok by (simp add: e0(2) cleared_def smap_ok_aupd)
qed

lemma smap_ok_FinishExecute: "smap_ok m \<Longrightarrow> smap_ok (FinishExecute t sid m)"
  by (simp add: FinishExecute_def smap_ok_adel)

lemma map_of_TabRemoved [host_simps]:
  "k \<noteq> ''undefined'' \<Longrightarrow> map_of (TabRemoved t m) k = map_of m k"
proof -
  have "map_of (fold (\<lambda>_. adel ''undefined'') bs m') k = map_of m' k"
    if "k \<noteq> ''undefined''" for bs :: "bool list" and m' :: statemap
    using that by (induction bs arbitrary: m') auto
  then show "k \<noteq> ''undefined'' \<Longrightarrow> ?thesis" by (simp add: TabRemoved_def)
qed

lemma smap_ok_TabRemoved: "smap_ok m \<Longrightarrow> smap_ok (TabRemoved t m)"
proof -
  have "smap_ok (fold (\<lambda>_. adel ''undefined'') bs m')" if "smap_ok m'" for bs :: "bool list" and m'
    using that by (induction bs arbitrary: m') (auto simp: smap_ok_adel)
  then show "smap_ok m \<Longrightarrow> ?thesis" by (simp add: TabRemoved_def)
qed


section \<open>Lemmas: the invariant on every run\<close>

lemma host_invI:
  "smap_ok m \<Longrightarrow> (\<And>u. distinct (map fst (l u))) \<Longrightarrow> host_inv \<lparr>smap = m, local = l\<rparr>"
  by (simp add: host_inv_def)

lemma host_inv_D:
  "host_inv h \<Longrightarrow> smap_ok (smap h) \<and> distinct (map fst (local h t))"
  by (simp add: host_inv_def)

lemma host_inv_upd:
  assumes "host_inv h" "smap_ok m" "distinct (map fst l)"
  shows "host_inv (h\<lparr>smap := m, local := (local h)(t := l)\<rparr>)"
  using assms by (simp add: host_inv_def)

lemma host_inv_local:
  assumes "host_inv h" "distinct (map fst l)"
  shows "host_inv (h\<lparr>local := (local h)(t := l)\<rparr>)"
  using host_inv_upd [OF assms(1) conjunct1 [OF host_inv_D [OF assms(1)]] assms(2)] by simp

lemma host_inv_call_script:
  "host_inv h \<Longrightarrow> host_inv (call_script cat t sid st ext b h)"
  by (auto simp: call_script_def page_RegisterExecute_def Let_def host_inv_def
      smap_ok_RegisterExecute split: option.splits)

lemma host_inv_restoreScripts:
  assumes "host_inv h" shows "host_inv (restoreScripts cat t h)"
proof -
  have fold_inv: "host_inv (fold (restore_one cat t) sel h')" if "host_inv h'" for sel h'
    using that by (induction sel arbitrary: h') (auto simp: restore_one_def host_inv_call_script)
  have "host_inv (h\<lparr>smap := snd (RestoreStates t (smap h))\<rparr>)"
    using assms smap_ok_RestoreStates by (simp add: host_inv_def)
  then show ?thesis
    using fold_inv by (simp add: restoreScripts_def case_prod_beta)
qed

lemma host_inv_archiveScripts: "host_inv h \<Longrightarrow> host_inv (archiveScripts t h)"
  unfolding archiveScripts_def
  by (rule host_inv_upd) (simp_all add: host_inv_def smap_ok_ArchiveStates)

lemma host_inv_archiveScript: "host_inv h \<Longrightarrow> host_inv (archiveScript t sid h)"
  unfolding archiveScript_def
  by (auto intro!: host_inv_upd simp: host_inv_def smap_ok_ArchiveState split: option.splits)

lemma host_inv_restoreScript:
  assumes "host_inv h" "restoreScript cat t sid h = Inr h'" shows "host_inv h'"
proof (cases "map_of (local h t) sid = None")
  case False
  then show ?thesis using assms by (simp add: restoreScript_def)
next
  case True
  with assms(2) obtain e m' where r: "RestoreState sid (smap h) = Inr (e, m')"
      and h': "h' = call_script cat t sid (steps_arg (esteps e)) (vars_arg (evars e)) True
                   (h\<lparr>smap := m'\<rparr>)"
    by (auto simp: restoreScript_def split: sum.splits)
  have "host_inv (h\<lparr>smap := m'\<rparr>)"
    using assms(1) smap_ok_RestoreState [OF _ r] by (simp add: host_inv_def)
  then show ?thesis by (simp add: h' host_inv_call_script)
qed

lemma host_inv_focusScript:
  assumes inv: "host_inv h" and f: "focusScript cat sid t' h = Inr h'"
  shows "host_inv h'"
proof -
  obtain e where e: "map_of (smap h) sid = Some e"
    using f by (cases "map_of (smap h) sid") (simp_all add: focusScript_def)
  let ?h1 = "archiveScript (etab e) sid h"
  obtain e1 where e1: "map_of (smap ?h1) sid = Some e1"
    using f e by (cases "map_of (smap ?h1) sid") (simp_all add: focusScript_def Let_def)
  let ?h2 = "?h1\<lparr>smap := aupd sid (e1\<lparr>etab := t'\<rparr>) (smap ?h1)\<rparr>"
  have i1: "host_inv ?h1" using inv by (rule host_inv_archiveScript)
  have "eid e1 = sid \<and> (esteps e1 = None \<longleftrightarrow> evars e1 = None)"
    using smap_ok_entry [OF conjunct1 [OF host_inv_D [OF i1]] e1] .
  then have i2: "host_inv ?h2"
    using i1 by (simp add: host_inv_def smap_ok_aupd)
  show ?thesis
  proof (cases "restoreScript cat t' sid ?h2")
    case (Inl err)
    then have "h' = ?h2" using f e e1 by (simp add: focusScript_def Let_def)
    then show ?thesis using i2 by simp
  next
    case (Inr h3)
    then have "h' = h3" using f e e1 by (simp add: focusScript_def Let_def)
    then show ?thesis using Inr host_inv_restoreScript [OF i2] by simp
  qed
qed

lemma host_inv_step: "host_inv h \<Longrightarrow> host_inv (host_step cat ev h)"
proof (cases ev)
  case (Progress t sid st)
  assume "host_inv h"
  then show ?thesis using Progress
    by (auto intro: host_inv_local simp: host_inv_def split: option.splits)
next
  case (Finish t sid)
  assume "host_inv h"
  then show ?thesis using Finish
    by (auto simp: page_FinishExecute_def host_inv_def smap_ok_FinishExecute)
next
  case (FocusScript sid t)
  assume "host_inv h"
  then show ?thesis using FocusScript host_inv_focusScript
    by (auto split: sum.splits)
next
  case (TabClosed t)
  assume "host_inv h"
  then show ?thesis using TabClosed by (simp add: host_inv_def smap_ok_TabRemoved)
qed (simp_all add: host_inv_call_script host_inv_archiveScripts host_inv_restoreScripts)

lemma host_inv_run: "host_inv h \<Longrightarrow> host_inv (host_run cat evs h)"
  unfolding host_run_def by (induction evs arbitrary: h) (simp_all add: host_inv_step)

lemma host_inv_init: "host_inv host_init"
  by (simp add: host_inv_def host_init_def smap_ok_def)


section \<open>Lemmas: archiving and restoring\<close>

lemma smap_ok_tl: "smap_ok (p # m) \<Longrightarrow> smap_ok m"
  by (simp add: smap_ok_def)

lemma find_restorable:
  "smap_ok m \<Longrightarrow> map_of m k = Some e \<Longrightarrow> P e \<Longrightarrow>
   find (\<lambda>e. eid e = k) (filter P (map snd m)) = Some e"
proof (induction m)
  case (Cons p m)
  obtain k1 e1 where p: "p = (k1, e1)" by (cases p) auto
  have "eid e1 = k1" using Cons.prems(1) p by (simp add: smap_ok_def)
  then show ?case
    using Cons.IH [OF smap_ok_tl [OF Cons.prems(1)]] Cons.prems p by (auto split: if_splits)
qed simp

lemma smap_restore_one [host_simps]: "smap (restore_one cat t e h) = smap h"
  by (simp add: restore_one_def call_script_def page_RegisterExecute_def split: option.splits)

lemma smap_fold_restore_one: "smap (fold (restore_one cat t) sel h) = smap h"
  by (induction sel arbitrary: h) (simp_all add: smap_restore_one)

lemma restore_one_keeps:
  assumes "map_of (local h t) k = Some v"
  shows "map_of (local (restore_one cat t e h) t) k = Some v"
proof (cases "map_of (local h t) (eid e) = None")
  case True
  then have "eid e \<noteq> k" using assms by auto
  then show ?thesis using True assms
    by (simp add: restore_one_def call_script_def page_RegisterExecute_def split: option.splits)
next
  case False
  then show ?thesis using assms by (simp add: restore_one_def)
qed

lemma fold_restore_one_keeps:
  "map_of (local h t) k = Some v \<Longrightarrow>
   map_of (local (fold (restore_one cat t) sel h) t) k = Some v"
  by (induction sel arbitrary: h) (simp_all add: restore_one_keeps)

text \<open>\<open>restoreScripts\<close> starts each script that is not running in the tab, from the first
  returned record with its id, one step past the archived position.\<close>

lemma fold_restore_one:
  "map_of (local h t) k = None \<Longrightarrow>
   map_of (local (fold (restore_one cat t) sel h) t) k =
     (case find (\<lambda>e. eid e = k) sel of
        None \<Rightarrow> None
      | Some e \<Rightarrow> map_option (\<lambda>als. (upd_last (\<lambda>x. x + 1) (steps_arg (esteps e)),
                                     var_init k als (vars_arg (evars e)))) (cat k))"
proof (induction sel arbitrary: h)
  case (Cons e sel)
  show ?case
  proof (cases "eid e = k")
    case True
    show ?thesis
    proof (cases "cat k")
      case None
      then have "restore_one cat t e h = h" using True
        by (simp add: restore_one_def call_script_def)
      then show ?thesis using Cons.IH [OF Cons.prems] True None by (simp split: option.splits)
    next
      case (Some als)
      have "map_of (local (restore_one cat t e h) t) k =
            Some (upd_last (\<lambda>x. x + 1) (steps_arg (esteps e)), var_init k als (vars_arg (evars e)))"
        using Cons.prems True Some
        by (simp add: restore_one_def call_script_def page_RegisterExecute_def)
      then show ?thesis using fold_restore_one_keeps True Some by simp
    qed
  next
    case False
    then have "map_of (local (restore_one cat t e h) t) k = None"
      using Cons.prems
      by (auto simp: restore_one_def call_script_def page_RegisterExecute_def split: option.splits)
    then show ?thesis using Cons.IH False by simp
  qed
qed simp

lemma map_of_archived:
  "map_of (map (\<lambda>(sid, st, vs). (sid, st, varsFilter vs)) l) k =
   map_option (\<lambda>(st, vs). (st, varsFilter vs)) (map_of l k)"
  by (induction l) auto

lemma distinct_archived:
  "distinct (map fst (map (\<lambda>(sid, st, vs). (sid, st, varsFilter vs)) l)) = distinct (map fst l)"
  by (induction l) (auto simp: image_iff)

text \<open>What \<open>beforeunload\<close> followed by \<open>pageshow\<close> in the same tab does to one run the tab
  owns.\<close>

lemma unload_show_run:
  assumes inv: "host_inv h" and l: "map_of (local h t) k = Some (st, vs)"
    and o: "owned_by (smap h) k t"
  defines "E \<equiv> \<lparr>eid = k, etab = t, esteps = Some st, evars = Some (varsFilter vs)\<rparr>"
  shows "map_of (smap (archiveScripts t h)) k = Some E \<and> local (archiveScripts t h) t = [] \<and>
         restoreScripts cat t (archiveScripts t h) =
           fold (restore_one cat t) (fst (RestoreStates t (smap (archiveScripts t h))))
             ((archiveScripts t h)\<lparr>smap := snd (RestoreStates t (smap (archiveScripts t h)))\<rparr>)"
proof -
  have d: "distinct (map fst (local h t))" using host_inv_D [OF inv] by simp
  let ?xs = "map (\<lambda>(sid, st, vs). (sid, st, varsFilter vs)) (local h t)"
  have xs: "map_of ?xs k = Some (st, varsFilter vs)" using l by (simp add: map_of_archived)
  have dx: "distinct (map fst ?xs)" using d unfolding distinct_archived .
  have "map_of (ArchiveStates t ?xs (smap h)) k = Some E"
    unfolding map_of_ArchiveStates [OF dx] xs using o by (simp add: E_def)
  then have "map_of (smap (archiveScripts t h)) k = Some E"
    by (simp add: archiveScripts_def)
  then show ?thesis by (simp add: archiveScripts_def restoreScripts_def case_prod_beta)
qed



lemma unload_show_local:
  assumes inv: "host_inv h" and l: "map_of (local h t) k = Some (st, vs)"
    and o: "owned_by (smap h) k t" and c: "cat k = Some als"
  shows "map_of (local (host_run cat [Unload t, Show t] h) t) k =
           Some (upd_last (\<lambda>x. x + 1) st, var_init k als (varsFilter vs))"
proof -
  let ?h1 = "archiveScripts t h"
  note r = unload_show_run [OF inv l o, of cat]
  have ok: "smap_ok (smap ?h1)" using host_inv_D [OF host_inv_archiveScripts [OF inv]] by simp
  have f: "find (\<lambda>e. eid e = k) (fst (RestoreStates t (smap ?h1))) =
           Some \<lparr>eid = k, etab = t, esteps = Some st, evars = Some (varsFilter vs)\<rparr>"
    using find_restorable [OF ok conjunct1 [OF r]] by (simp add: RestoreStates_def restorable_def)
  have "map_of (local (?h1\<lparr>smap := snd (RestoreStates t (smap ?h1))\<rparr>) t) k = None"
    using r by simp
  from fold_restore_one [OF this, of cat "fst (RestoreStates t (smap ?h1))"] f c r
  show ?thesis by (simp add: host_run_def steps_arg_def vars_arg_def)
qed

section \<open>Suspend and resume\<close>

text \<open>
  C13. Suspend and resume across a page load: when a tab that owns a running script
  unloads (\<open>archiveScripts\<close> on \<open>beforeunload\<close>) and its next page is shown
  (\<open>restoreScripts\<close> on \<open>pageshow\<close>), the script runs again in that tab one step past the
  position it had, with the primitive variables it had (objects, functions and \<open>__ID__\<close>
  dropped by \<open>varsFilter\<close>) spread over a fresh \<open>__VAR__\<close>, and the background keeps the
  tab as owner with the archived position consumed.
\<close>

theorem suspend_resume_roundtrip:
  assumes "host_inv h" and "map_of (local h t) k = Some (st, vs)"
    and "owned_by (smap h) k t" and "cat k = Some als"
  shows "map_of (local (host_run cat [Unload t, Show t] h) t) k =
           Some (upd_last (\<lambda>x. x + 1) st, var_init k als (varsFilter vs)) \<and>
         map_of (smap (host_run cat [Unload t, Show t] h)) k =
           Some \<lparr>eid = k, etab = t, esteps = None, evars = None\<rparr>"
proof -
  note r = unload_show_run [OF assms(1-3), of cat]
  have "map_of (smap (host_run cat [Unload t, Show t] h)) k =
        map_of (snd (RestoreStates t (smap (archiveScripts t h)))) k"
    using r by (simp add: host_run_def smap_fold_restore_one)
  also have "\<dots> = Some \<lparr>eid = k, etab = t, esteps = None, evars = None\<rparr>"
    using r by (simp add: map_of_RestoreStates restorable_def cleared_def)
  finally show ?thesis using unload_show_local [where cat = cat, OF assms] by blast
qed

theorem suspend_resume_roundtrip_witness:
  "host_inv demo_host \<and>
   map_of (local demo_host 1) ''s1'' = Some ([3, 2], var_init ''s1'' [''a''] []) \<and>
   owned_by (smap demo_host) ''s1'' 1 \<and> demo_catalog ''s1'' = Some [''a''] \<and>
   map_of (local (host_run demo_catalog [Unload 1, Show 1] demo_host) 1) ''s1'' =
     Some ([3, 3], var_init ''s1'' [''a''] (varsFilter (var_init ''s1'' [''a''] [])))"
proof -
  have i: "host_inv demo_host" by (simp add: demo_host_def host_inv_run host_inv_init)
  have l: "map_of (local demo_host 1) ''s1'' = Some ([3, 2], var_init ''s1'' [''a''] [])"
    by code_simp
  have o: "owned_by (smap demo_host) ''s1'' 1" by code_simp
  have c: "demo_catalog ''s1'' = Some [''a'']" by (simp add: demo_catalog_def)
  show ?thesis using suspend_resume_roundtrip [where cat = demo_catalog, OF i l o c] i l o c by simp
qed


text \<open>
  C14. On every sequence of host events from the empty state, the background's state map has
  one entry per script id, naming that id, holding a position exactly when it holds
  variables, and each tab has at most one local record per id.
\<close>

theorem host_run_invariant: "host_inv (host_run cat evs host_init)"
  by (rule host_inv_run [OF host_inv_init])

theorem host_run_invariant_witness:
  "host_inv (host_run demo_catalog
     [Execute 1 ''s1'', Unload 1, FocusScript ''s1'' 2, Show 1, Finish 2 ''s1''] host_init)"
  by (rule host_run_invariant)

text \<open>
  C15. Closing a tab does not discard the runs it owned: the \<open>chrome.tabs.onRemoved\<close>
  handler maps the states to booleans instead of filtering them and deletes the key
  \<open>"undefined"\<close>, so every other entry of the state map, the closed tab's included, is
  left as it was.
\<close>

theorem tab_close_keeps_states:
  assumes "k \<noteq> ''undefined''"
  shows "map_of (smap (host_step cat (TabClosed t) h)) k = map_of (smap h) k"
  using assms by (simp add: map_of_TabRemoved)

theorem tab_close_keeps_states_witness:
  "''s1'' \<noteq> ''undefined'' \<and> owned_by (smap demo_host) ''s1'' 1 \<and>
   map_of (smap (host_step demo_catalog (TabClosed 1) demo_host)) ''s1'' = map_of (smap demo_host) ''s1''"
proof -
  have o: "owned_by (smap demo_host) ''s1'' 1" by code_simp
  show ?thesis using tab_close_keeps_states [of "''s1''"] o by simp
qed

text \<open>
  C16. Restoring a script in a tab (the \<open>script_focus\<close> request) fails with the
  \<open>SyntaxError\<close> of \<open>JSON.parse\<close> when the background has no entry for it, and when the entry
  holds no archived position the wrapper's defaults \<open>stepList = [1]\<close>, \<open>externalVars = {}\<close>
  apply and \<open>isRestore\<close> increments the position: the script starts at \<open>[2]\<close>, skipping its
  first step, with none of its variables.
\<close>

theorem restore_without_position:
  assumes "map_of (local h t) sid = None"
  shows "(map_of (smap h) sid = None \<longrightarrow> restoreScript cat t sid h = Inl SyntaxError) \<and>
         (\<forall>e als. map_of (smap h) sid = Some e \<longrightarrow> esteps e = None \<longrightarrow> evars e = None \<longrightarrow>
            cat sid = Some als \<longrightarrow>
            (\<exists>h'. restoreScript cat t sid h = Inr h' \<and>
                  map_of (local h' t) sid = Some ([2], var_init sid als [])))"
  using assms
  by (auto simp: restoreScript_def RestoreState_def call_script_def page_RegisterExecute_def
      steps_arg_def vars_arg_def)

theorem restore_without_position_witness:
  "map_of (local demo_host 2) ''s1'' = None \<and>
   map_of (smap demo_host) ''s1'' = Some \<lparr>eid = ''s1'', etab = 1, esteps = None, evars = None\<rparr> \<and>
   (\<exists>h'. restoreScript demo_catalog 2 ''s1'' demo_host = Inr h' \<and>
         map_of (local h' 2) ''s1'' = Some ([2], var_init ''s1'' [''a''] []))"
proof -
  have l: "map_of (local demo_host 2) ''s1'' = None" by code_simp
  have m: "map_of (smap demo_host) ''s1'' = Some \<lparr>eid = ''s1'', etab = 1, esteps = None, evars = None\<rparr>"
    by code_simp
  have c: "demo_catalog ''s1'' = Some [''a'']" by (simp add: demo_catalog_def)
  show ?thesis using restore_without_position [where cat = demo_catalog, OF l] l m c by simp
qed


end
