(* ===== verification/Registry.thy ===== *)
theory Registry
  imports Bodies
begin

text \<open>
  The block registry and the rehydration of a stored tree. \<open>src/src/classes/BlockType.ts\<close>
  maps the export names of \<open>Block.ts\<close> to its classes (\<open>getBlockTypeMap\<close>) and back
  (\<open>getMetaByBlock\<close>); \<open>Block.getAttributeTypes\<close> merges the schemas up the class chain;
  \<open>Block.build\<close> stamps the type tag and back-fills every attribute the merged schema declares
  and the stored map lacks; \<open>registerRootBlock\<close> rebuilds a tree from its stored form by
  setting each node's class from its type tag, building it, and registering its id (and its
  end marker's) in the id table. The type map is a plain object, so a tag can also name a
  member it inherits from \<open>Object.prototype\<close>; the tag \<open>constructor\<close> then gives a block
  with no \<open>build\<close>, and rehydration fails.
\<close>

section \<open>The type map\<close>

text \<open>The export name of each class (\<open>export class X\<close>): the key of \<open>getBlockTypeMap\<close>
  and the class's \<open>name\<close>.\<close>

fun kind_name :: "kind \<Rightarrow> string" where
  "kind_name Block = ''Block''"
| "kind_name RootBlock = ''RootBlock''"
| "kind_name TestBlock = ''TestBlock''"
| "kind_name LogBlock = ''LogBlock''"
| "kind_name AlertBlock = ''AlertBlock''"
| "kind_name PromptBlock = ''PromptBlock''"
| "kind_name ConfirmBlock = ''ConfirmBlock''"
| "kind_name CalculateNumberBlock = ''CalculateNumberBlock''"
| "kind_name ConcatStringBlock = ''ConcatStringBlock''"
| "kind_name ReplaceStringBlock = ''ReplaceStringBlock''"
| "kind_name CreateNumberBlock = ''CreateNumberBlock''"
| "kind_name RandomNumberBlock = ''RandomNumberBlock''"
| "kind_name GetDatetimeBlock = ''GetDatetimeBlock''"
| "kind_name IfBlock = ''IfBlock''"
| "kind_name IfStringBlock = ''IfStringBlock''"
| "kind_name IfNumberBlock = ''IfNumberBlock''"
| "kind_name IfBooleanBlock = ''IfBooleanBlock''"
| "kind_name IfExistBlock = ''IfExistBlock''"
| "kind_name IfContainBlock = ''IfContainBlock''"
| "kind_name IfVisibleBlock = ''IfVisibleBlock''"
| "kind_name ElseBlock = ''ElseBlock''"
| "kind_name EndIfBlock = ''EndIfBlock''"
| "kind_name LoopBlock = ''LoopBlock''"
| "kind_name EndLoopBlock = ''EndLoopBlock''"
| "kind_name BreakBlock = ''BreakBlock''"
| "kind_name ContinueBlock = ''ContinueBlock''"
| "kind_name ExitBlock = ''ExitBlock''"
| "kind_name MacroBlock = ''MacroBlock''"
| "kind_name SmartBlock = ''SmartBlock''"
| "kind_name CreateDataBlock = ''CreateDataBlock''"
| "kind_name EditStringDataBlock = ''EditStringDataBlock''"
| "kind_name EditNumberDataBlock = ''EditNumberDataBlock''"
| "kind_name EditBooleanDataBlock = ''EditBooleanDataBlock''"
| "kind_name CreateListBlock = ''CreateListBlock''"
| "kind_name SetListByPushBlock = ''SetListByPushBlock''"
| "kind_name TakeListByPopBlock = ''TakeListByPopBlock''"
| "kind_name TakeListByIndexBlock = ''TakeListByIndexBlock''"
| "kind_name SetListByIndexBlock = ''SetListByIndexBlock''"
| "kind_name GetListByIndexBlock = ''GetListByIndexBlock''"
| "kind_name SaveDataBlock = ''SaveDataBlock''"
| "kind_name SaveListBlock = ''SaveListBlock''"
| "kind_name GetElementListByTypeFromDocumentBlock = ''GetElementListByTypeFromDocumentBlock''"
| "kind_name GetElementContentBlock = ''GetElementContentBlock''"
| "kind_name HideElementBlock = ''HideElementBlock''"
| "kind_name ShowElementBlock = ''ShowElementBlock''"
| "kind_name SetElementOpacityBlock = ''SetElementOpacityBlock''"
| "kind_name SetElementContentBlock = ''SetElementContentBlock''"
| "kind_name SetElementPasswordBlock = ''SetElementPasswordBlock''"
| "kind_name RemoveElementBlock = ''RemoveElementBlock''"
| "kind_name GetElementByCaptureBlockFromDocument = ''GetElementByCaptureBlockFromDocument''"
| "kind_name ClickElementBlock = ''ClickElementBlock''"
| "kind_name OpenUrlBlock = ''OpenUrlBlock''"
| "kind_name CloseTabBlock = ''CloseTabBlock''"
| "kind_name ScriptFocusBlock = ''ScriptFocusBlock''"
| "kind_name GetUrlBlock = ''GetUrlBlock''"
| "kind_name GetTitleBlock = ''GetTitleBlock''"
| "kind_name ForwardBlock = ''ForwardBlock''"
| "kind_name BackBlock = ''BackBlock''"
| "kind_name WaitBlock = ''WaitBlock''"

text \<open>The classes of the module namespace that are \<open>Block\<close> or extend it.\<close>

definition all_kinds :: "kind list" where
  "all_kinds =
     [Block, RootBlock, TestBlock, LogBlock, AlertBlock, PromptBlock, ConfirmBlock,
      CalculateNumberBlock, ConcatStringBlock, ReplaceStringBlock, CreateNumberBlock,
      RandomNumberBlock, GetDatetimeBlock, IfBlock, IfStringBlock, IfNumberBlock,
      IfBooleanBlock, IfExistBlock, IfContainBlock, IfVisibleBlock, ElseBlock, EndIfBlock,
      LoopBlock, EndLoopBlock, BreakBlock, ContinueBlock, ExitBlock, MacroBlock,
      SmartBlock, CreateDataBlock, EditStringDataBlock, EditNumberDataBlock,
      EditBooleanDataBlock, CreateListBlock, SetListByPushBlock, TakeListByPopBlock,
      TakeListByIndexBlock, SetListByIndexBlock, GetListByIndexBlock, SaveDataBlock,
      SaveListBlock, GetElementListByTypeFromDocumentBlock, GetElementContentBlock,
      HideElementBlock, ShowElementBlock, SetElementOpacityBlock, SetElementContentBlock,
      SetElementPasswordBlock, RemoveElementBlock, GetElementByCaptureBlockFromDocument,
      ClickElementBlock, OpenUrlBlock, CloseTabBlock, ScriptFocusBlock, GetUrlBlock,
      GetTitleBlock, ForwardBlock, BackBlock, WaitBlock]"

definition getBlockTypeMap :: "(string \<times> kind) list" where
  "getBlockTypeMap = map (\<lambda>k. (kind_name k, k)) all_kinds"

text \<open>What a property read on the plain object \<open>blockTypes\<close> (built as \<open>{}\<close>) yields
  besides its own keys: the members it inherits from \<open>Object.prototype\<close>. \<open>constructor\<close> is
  the function \<open>Object\<close>, whose \<open>prototype\<close> is \<open>Object.prototype\<close>; every other inherited
  member (the built-in methods and the \<open>__proto__\<close> accessor, whose value is
  \<open>Object.prototype\<close>) has no \<open>prototype\<close> property.\<close>

datatype type_entry = TClass kind | TObjectCtor | TInherited

definition object_proto_members :: "string list" where
  "object_proto_members =
     [''__defineGetter__'', ''__defineSetter__'', ''hasOwnProperty'', ''__lookupGetter__'',
      ''__lookupSetter__'', ''isPrototypeOf'', ''propertyIsEnumerable'', ''toString'', ''valueOf'',
      ''__proto__'', ''toLocaleString'']"

text \<open>\<open>getBlockByType(type)\<close>: \<open>blockTypes[type] ?? null\<close>, an own key first, then the
  inherited members; \<open>None\<close> is \<open>null\<close>.\<close>

definition getBlockByType :: "string \<Rightarrow> type_entry option" where
  "getBlockByType t =
     (case map_of getBlockTypeMap t of
        Some c \<Rightarrow> Some (TClass c)
      | None \<Rightarrow> if t = ''constructor'' then Some TObjectCtor
                else if t \<in> set object_proto_members then Some TInherited else None)"

text \<open>\<open>getBlockMetaMap\<close>/\<open>getMetaByBlock\<close>: each class with its key and its \<open>name\<close>.\<close>

definition getMetaByBlock :: "kind \<Rightarrow> (string \<times> string) option" where
  "getMetaByBlock k = map_of (map (\<lambda>(key, c). (c, (key, kind_name c))) getBlockTypeMap) k"

definition getBlockByName :: "string \<Rightarrow> kind option" where
  "getBlockByName n = map_of (map (\<lambda>(key, c). (kind_name c, c)) getBlockTypeMap) n"


section \<open>Merged schemas\<close>

text \<open>The depth of a class below \<open>Block\<close> in the class chain (\<open>static get super\<close>).\<close>

definition kind_depth :: "kind \<Rightarrow> nat" where
  "kind_depth k = (case super_kind k of None \<Rightarrow> 0 | Some p \<Rightarrow> Suc (case super_kind p of None \<Rightarrow> 0 | Some _ \<Rightarrow> 1))"

text \<open>\<open>static async getAttributeTypes()\<close>: the object literal
  \<open>{...await this.super?.getAttributeTypes(), ...await resultifyObject(this.defaultAttr)}\<close>;
  \<open>Block\<close> has no \<open>super\<close>, and spreading \<open>undefined\<close> adds nothing.\<close>

function getAttributeTypes :: "kind \<Rightarrow> schema" where
  "getAttributeTypes k =
     obj_of ((case super_kind k of None \<Rightarrow> [] | Some p \<Rightarrow> getAttributeTypes p) @ defaultAttr k)"
  by pat_completeness auto

termination getAttributeTypes
proof (relation "measure kind_depth")
  fix k p
  assume "super_kind k = Some p"
  then show "(p, k) \<in> measure kind_depth" by (cases k) (auto simp: kind_depth_def)
qed simp

declare getAttributeTypes.simps [simp del]

section \<open>Building a block\<close>

datatype reg_error = NullMeta | MarkerMissing | NotABlock

text \<open>One turn of the loop of \<open>build\<close> over the merged schema: an attribute the block lacks
  (\<open>getAttribute(attrKey) === undefined\<close>) gets the default; an enum attribute also sets
  \<open>data.enumOptions\<close> to its options, whether or not the value was back-filled.\<close>

definition build_attr ::
  "(string \<times> jsval) list \<times> enum_options option \<Rightarrow> string \<times> attr_desc
     \<Rightarrow> (string \<times> jsval) list \<times> enum_options option" where
  "build_attr st kd =
     (let (attrs, eo) = st; (key, d) = kd;
          attrs' = (if get_attr attrs key = JUndefined then aupd key (default_value d) attrs else attrs)
      in (attrs', if atype d = TEnum then Some (options d) else eo))"

text \<open>The loop \<open>for (let attrKey in attributeTypes)\<close> of \<open>build\<close>, in key order.\<close>

definition build_loop ::
  "schema \<Rightarrow> (string \<times> jsval) list \<times> enum_options option \<Rightarrow> (string \<times> jsval) list \<times> enum_options option" where
  "build_loop sch st = fold (\<lambda>kd st. build_attr st kd) sch st"

text \<open>\<open>async build()\<close>: the type tag from \<open>getMetaByBlock(this.prototype)\<close> (destructuring a
  missing entry throws), then the loop over \<open>getAttributeTypes()\<close>. The result is the new
  \<open>_type\<close>, \<open>_attr\<close> and \<open>data.enumOptions\<close>.\<close>

definition build ::
  "kind \<Rightarrow> (string \<times> jsval) list \<Rightarrow> enum_options option
     \<Rightarrow> reg_error + string \<times> (string \<times> jsval) list \<times> enum_options option" where
  "build k attrs eo =
     (case getMetaByBlock k of
        None \<Rightarrow> Inl NullMeta
      | Some (ty, _) \<Rightarrow> Inr (ty, build_loop (getAttributeTypes k) (attrs, eo)))"


section \<open>The id table and rehydration\<close>

text \<open>\<open>Block._idMap\<close> by its keys: \<open>regId\<close> inserts a block's id, \<open>removeBlockById\<close> deletes
  it, \<open>findBlockById\<close> finds a block exactly when its id is a key.\<close>

type_synonym idtab = "nat set"

definition regId :: "nat \<Rightarrow> idtab \<Rightarrow> idtab" where
  "regId i tab = insert i tab"

definition removeBlockById :: "nat \<Rightarrow> idtab \<Rightarrow> idtab" where
  "removeBlockById i tab = tab - {i}"

definition findBlockById :: "nat \<Rightarrow> idtab \<Rightarrow> bool" where
  "findBlockById i tab \<longleftrightarrow> i \<in> tab"

text \<open>A block as it is stored (the plain object \<open>registerRootBlock\<close> receives): its type tag
  \<open>_type\<close>, its id \<open>_id\<close>, attributes \<open>_attr\<close>, \<open>data.enumOptions\<close>, alias map
  \<open>_varAlias\<close>, the keys \<open>data.variableAgent\<close> flags, the id of its stored end marker
  (\<open>_endIfBlock\<close> or \<open>_endLoopBlock\<close>; \<open>None\<close> when the field is absent) and its children in
  the order of \<open>Object.values(this._children)\<close>.\<close>

datatype snode =
  SNode (stype: string) (sid: nat) (sattrs: "(string \<times> jsval) list") (senum: "enum_options option")
        (salias: "(string \<times> string) list") (sagent: "string list") (smarker: "nat option")
        (schildren: "snode list")

text \<open>The class a stored block is given: \<open>BlockTypeMap[block.type]?.prototype ?? Block.prototype\<close>,
  the same property read as \<open>getBlockByType\<close>. A class's prototype for a class key; for an
  inherited member without a \<open>prototype\<close>, or no entry, \<open>Block.prototype\<close>. For
  \<open>constructor\<close> the prototype is \<open>Object.prototype\<close>, which is no block class: \<open>toBlock\<close>
  rejects that tag before the class is used, and the value given here is never read.\<close>

definition class_of_tag :: "string \<Rightarrow> kind" where
  "class_of_tag t = (case getBlockByType t of Some (TClass c) \<Rightarrow> c | _ \<Rightarrow> Block)"

text \<open>The registration of a built block: its own id, then for an \<open>IfBlock\<close> or \<open>LoopBlock\<close>
  the id of its end marker, whose prototype is set first (\<open>Object.setPrototypeOf(undefined, ...)\<close>
  throws when the stored block has none).\<close>

definition reg_block :: "kind \<Rightarrow> nat \<Rightarrow> nat option \<Rightarrow> idtab \<Rightarrow> reg_error + idtab" where
  "reg_block k i mk tab =
     (let tab1 = regId i tab in
      if is_if k \<or> is_loop k then
        (case mk of None \<Rightarrow> Inl MarkerMissing | Some m \<Rightarrow> Inr (regId m tab1))
      else Inr tab1)"

text \<open>\<open>toBlocks\<close> of \<open>registerRootBlock\<close>: for each child in order, set its class, \<open>build\<close>
  it, register it (and its marker), then recurse into its children. The result is the live tree
  the compiler walks and the id table. A block tagged \<open>constructor\<close> gets the prototype
  \<open>Object.prototype\<close>, which has no \<open>build\<close>: the call \<open>block.build()\<close> throws a
  \<open>TypeError\<close> (\<open>NotABlock\<close>) before anything is registered.\<close>

fun toBlock :: "snode \<Rightarrow> idtab \<Rightarrow> reg_error + node \<times> idtab"
and toBlocks :: "snode list \<Rightarrow> idtab \<Rightarrow> reg_error + node list \<times> idtab" where
  "toBlock (SNode t i a eo al ag mk cs) tab =
     (if getBlockByType t = Some TObjectCtor then Inl NotABlock else
      let k = class_of_tag t in
      sbind (build k a eo) (\<lambda>(ty, a', eo').
      sbind (reg_block k i mk tab) (\<lambda>tab1.
      sbind (toBlocks cs tab1) (\<lambda>(ns, tab2). Inr (Node i k a' al ag ns, tab2)))))"
| "toBlocks [] tab = Inr ([], tab)"
| "toBlocks (c # cs) tab =
     sbind (toBlock c tab) (\<lambda>(n, tab1).
     sbind (toBlocks cs tab1) (\<lambda>(ns, tab2). Inr (n # ns, tab2)))"

text \<open>\<open>registerRootBlock(rootBlock)\<close>: a stored root is made a \<open>RootBlock\<close> (the
  \<open>instanceof\<close> test after \<open>setPrototypeOf\<close> always passes), registered, and its children
  rehydrated; the root itself is not built. Without a stored root, \<open>new RootBlock()\<close> takes
  the id \<open>fresh\<close> that \<open>genId\<close> hands out and registers it.\<close>

definition registerRootBlock :: "snode option \<Rightarrow> nat \<Rightarrow> idtab \<Rightarrow> reg_error + node \<times> idtab" where
  "registerRootBlock r fresh tab =
     (case r of
        None \<Rightarrow> Inr (Node fresh RootBlock [] [] [] [], regId fresh tab)
      | Some (SNode t i a eo al ag mk cs) \<Rightarrow>
          sbind (toBlocks cs (regId i tab)) (\<lambda>(ns, tab1). Inr (Node i RootBlock a al ag ns, tab1)))"

text \<open>\<open>destroy()\<close> on the id table: the children are destroyed first, then the block is
  unlinked (modelled on the arena in \<open>Tree\<close>) and its own id removed.\<close>

fun destroy :: "snode \<Rightarrow> idtab \<Rightarrow> idtab"
and destroy_all :: "snode list \<Rightarrow> idtab \<Rightarrow> idtab" where
  "destroy (SNode t i a eo al ag mk cs) tab = removeBlockById i (destroy_all cs tab)"
| "destroy_all [] tab = tab"
| "destroy_all (c # cs) tab = destroy_all cs (destroy c tab)"


section \<open>What a stored tree registers\<close>

text \<open>A stored block is \<^emph>\<open>compound\<close> when its tag names an \<open>IfBlock\<close> or a \<open>LoopBlock\<close>
  class. The ids \<open>registerRootBlock\<close> registers for a stored subtree: every block's id and the
  marker id of every compound block; \<open>fault\<close> is the error of the first stored block, in the
  order \<open>toBlocks\<close> visits them, that is tagged \<open>constructor\<close> or is compound without a stored
  marker; \<open>block_ids\<close> are the ids of the blocks alone.\<close>

definition compound_tag :: "string \<Rightarrow> bool" where
  "compound_tag t \<longleftrightarrow> is_if (class_of_tag t) \<or> is_loop (class_of_tag t)"

fun registered :: "snode \<Rightarrow> nat set"
and registered_all :: "snode list \<Rightarrow> nat set" where
  "registered (SNode t i a eo al ag mk cs) =
     insert i ((if compound_tag t then set_option mk else {}) \<union> registered_all cs)"
| "registered_all [] = {}"
| "registered_all (c # cs) = registered c \<union> registered_all cs"

definition tag_fault :: "string \<Rightarrow> nat option \<Rightarrow> reg_error option" where
  "tag_fault t mk =
     (if getBlockByType t = Some TObjectCtor then Some NotABlock
      else if compound_tag t \<and> mk = None then Some MarkerMissing else None)"

fun fault :: "snode \<Rightarrow> reg_error option"
and fault_all :: "snode list \<Rightarrow> reg_error option" where
  "fault (SNode t i a eo al ag mk cs) = (case tag_fault t mk of Some e \<Rightarrow> Some e | None \<Rightarrow> fault_all cs)"
| "fault_all [] = None"
| "fault_all (c # cs) = (case fault c of Some e \<Rightarrow> Some e | None \<Rightarrow> fault_all cs)"

fun block_ids :: "snode \<Rightarrow> nat set"
and block_ids_all :: "snode list \<Rightarrow> nat set" where
  "block_ids (SNode t i a eo al ag mk cs) = insert i (block_ids_all cs)"
| "block_ids_all [] = {}"
| "block_ids_all (c # cs) = block_ids c \<union> block_ids_all cs"

text \<open>Every block of a live tree has a defined value for each attribute its class's schema
  declares, i.e. for each key \<open>parseScriptAttribute\<close> may read when the compiler walks it.\<close>

fun filled :: "node \<Rightarrow> bool"
and filled_all :: "node list \<Rightarrow> bool" where
  "filled (Node i k a al ag ns) =
     (list_all (\<lambda>kd. get_attr a (fst kd) \<noteq> JUndefined) (defaultAttr k) \<and> filled_all ns)"
| "filled_all [] = True"
| "filled_all (n # ns) = (filled n \<and> filled_all ns)"

section \<open>Lemmas on the type map\<close>

lemma kind_in_all_kinds [simp]: "k \<in> set all_kinds"
  by (cases k) (simp_all add: all_kinds_def)

lemma distinct_kind_names: "distinct (map kind_name all_kinds)"
  by code_simp

lemma distinct_all_kinds: "distinct all_kinds"
  using distinct_kind_names by (simp add: distinct_map)

lemma getBlockTypeMap_kind_name: "map_of getBlockTypeMap (kind_name k) = Some k"
  unfolding getBlockTypeMap_def
  by (rule map_of_is_SomeI) (simp_all add: comp_def distinct_kind_names)

lemma getBlockByType_kind_name [simp]: "getBlockByType (kind_name k) = Some (TClass k)"
  by (simp add: getBlockByType_def getBlockTypeMap_kind_name)

lemma getMetaByBlock_kind [simp]: "getMetaByBlock k = Some (kind_name k, kind_name k)"
  unfolding getMetaByBlock_def getBlockTypeMap_def
  by (rule map_of_is_SomeI) (simp_all add: comp_def distinct_all_kinds)

lemma getBlockByName_kind_name [simp]: "getBlockByName (kind_name k) = Some k"
  unfolding getBlockByName_def getBlockTypeMap_def
  by (rule map_of_is_SomeI) (simp_all add: comp_def distinct_kind_names)

lemma class_of_tag_kind_name [simp]: "class_of_tag (kind_name k) = k"
  by (simp add: class_of_tag_def)


section \<open>Lemmas on merged schemas\<close>

lemma super_kind_None: "super_kind k = None \<longleftrightarrow> k = Block"
  by (cases k) auto

lemma super_kind_Some: "super_kind k = Some p \<Longrightarrow> p = Block \<or> p = IfBlock"
  by (cases k) auto

lemma getAttributeTypes_Block: "getAttributeTypes Block = []"
  by (subst getAttributeTypes.simps) (simp add: defaultAttr_def obj_of_def)

lemma getAttributeTypes_super:
  "super_kind k = Some p \<Longrightarrow> getAttributeTypes k = obj_of (getAttributeTypes p @ defaultAttr k)"
  by (subst getAttributeTypes.simps) simp

lemma getAttributeTypes_IfBlock: "getAttributeTypes IfBlock = []"
  by (simp add: getAttributeTypes_super getAttributeTypes_Block defaultAttr_def obj_of_def)

lemma distinct_defaultAttr: "distinct (map fst (defaultAttr k))"
  by (cases k) (simp_all add: schema_defs)

lemma defaultAttr_defaults:
  "(key, d) \<in> set (defaultAttr k) \<Longrightarrow> default_value d \<noteq> JUndefined \<and> value_fits (atype d) (default_value d)"
  by (cases k) (auto simp: schema_defs)

lemma getAttributeTypes_defaults:
  "(key, d) \<in> set (getAttributeTypes k) \<Longrightarrow> default_value d \<noteq> JUndefined \<and> value_fits (atype d) (default_value d)"
proof (induction k arbitrary: key d rule: getAttributeTypes.induct)
  case (1 k)
  have "(key, d) \<in> set ((case super_kind k of None \<Rightarrow> [] | Some p \<Rightarrow> getAttributeTypes p) @ defaultAttr k)"
    using 1(2) set_obj_of by (subst (asm) getAttributeTypes.simps) blast
  then show ?case
  proof (cases "super_kind k")
    case (Some p)
    with \<open>(key, d) \<in> set (_ @ _)\<close> show ?thesis using 1(1) [OF Some] defaultAttr_defaults by auto
  qed (use defaultAttr_defaults in auto)
qed

lemma distinct_getAttributeTypes: "distinct (map fst (getAttributeTypes k))"
  by (subst getAttributeTypes.simps) simp


section \<open>Lemmas on build\<close>

lemma get_attr_aupd [simp]: "get_attr (aupd k v a) key = (if key = k then v else get_attr a key)"
  by (simp add: get_attr_def)

lemma build_loop_Nil [simp]: "build_loop [] st = st"
  by (simp add: build_loop_def)

lemma build_loop_Cons [simp]:
  "build_loop ((k, d) # sch) (a, eo) =
     build_loop sch (if get_attr a k = JUndefined then aupd k (default_value d) a else a,
                     if atype d = TEnum then Some (options d) else eo)"
  by (simp add: build_loop_def build_attr_def)

text \<open>The options \<open>build\<close> leaves in \<open>data.enumOptions\<close>: those of the last enum attribute.\<close>

lemma build_loop_enum:
  "snd (build_loop sch (a, eo)) = fold (\<lambda>kd e. if atype (snd kd) = TEnum then Some (options (snd kd)) else e) sch eo"
proof (induction sch arbitrary: a eo)
  case (Cons kd sch)
  then show ?case by (cases kd) simp
qed simp

lemma build_loop_other:
  "key \<notin> fst ` set sch \<Longrightarrow> get_attr (fst (build_loop sch (a, eo))) key = get_attr a key"
proof (induction sch arbitrary: a eo)
  case (Cons kd sch)
  then show ?case by (cases kd) (auto simp: image_iff)
qed simp

lemma build_loop_keep:
  "get_attr a key \<noteq> JUndefined \<Longrightarrow> get_attr (fst (build_loop sch (a, eo))) key = get_attr a key"
proof (induction sch arbitrary: a eo)
  case (Cons kd sch)
  obtain k d where kd: "kd = (k, d)" by (cases kd) auto
  define a1 where "a1 = (if get_attr a k = JUndefined then aupd k (default_value d) a else a)"
  have "get_attr a1 key = get_attr a key" using Cons.prems by (auto simp: a1_def)
  then show ?case using Cons.IH [of a1] Cons.prems kd by (simp add: a1_def [symmetric])
qed simp

lemma build_loop_fill:
  "distinct (map fst sch) \<Longrightarrow> (key, d) \<in> set sch \<Longrightarrow> get_attr a key = JUndefined \<Longrightarrow>
   get_attr (fst (build_loop sch (a, eo))) key = default_value d"
proof (induction sch arbitrary: a eo)
  case (Cons kd sch)
  obtain k d' where kd: "kd = (k, d')" by (cases kd) auto
  show ?case
  proof (cases "k = key")
    case True
    then have "d' = d" "key \<notin> fst ` set sch" using Cons.prems kd by (auto simp: image_iff)
    then show ?thesis using kd True Cons.prems(3) by (simp add: build_loop_other)
  next
    case False
    then show ?thesis using Cons kd by simp
  qed
qed simp

lemma build_loop_noop:
  "\<forall>key \<in> fst ` set sch. get_attr a key \<noteq> JUndefined \<Longrightarrow> fst (build_loop sch (a, eo)) = a"
proof (induction sch arbitrary: a eo)
  case (Cons kd sch)
  then show ?case by (cases kd) auto
qed simp


lemma build_kind [simp]: "build k a eo = Inr (kind_name k, build_loop (getAttributeTypes k) (a, eo))"
  by (simp add: build_def)

lemma build_loop_defined:
  assumes "key \<in> fst ` set (getAttributeTypes k)"
  shows "get_attr (fst (build_loop (getAttributeTypes k) (a, eo))) key \<noteq> JUndefined"
proof (cases "get_attr a key = JUndefined")
  case True
  obtain d where d: "(key, d) \<in> set (getAttributeTypes k)" using assms by auto
  show ?thesis
    using build_loop_fill [OF distinct_getAttributeTypes d True] getAttributeTypes_defaults [OF d] by simp
qed (simp add: build_loop_keep)

lemma getAttributeTypes_LogBlock: "getAttributeTypes LogBlock = LogBlock_defaultAttr"
  by (simp add: getAttributeTypes_super getAttributeTypes_Block obj_of_def LogBlock_defaultAttr_def
                defaultAttr_def)

section \<open>Properties of the schema merge and of build\<close>

text \<open>C17. \<open>build\<close> never fails, stamps the class's own export name as the type tag, keeps
  every stored attribute that is defined, and gives every attribute of the merged schema the
  stored data lacks its declared default.\<close>

theorem build_backfills:
  "\<exists>a' eo'. build k a eo = Inr (kind_name k, a', eo') \<and>
     (\<forall>key. get_attr a key \<noteq> JUndefined \<longrightarrow> get_attr a' key = get_attr a key) \<and>
     (\<forall>(key, d) \<in> set (getAttributeTypes k). get_attr a key = JUndefined \<longrightarrow> get_attr a' key = default_value d)"
proof (rule exI [where x = "fst (build_loop (getAttributeTypes k) (a, eo))"],
       rule exI [where x = "snd (build_loop (getAttributeTypes k) (a, eo))"], intro conjI)
  show "build k a eo = Inr (kind_name k, fst (build_loop (getAttributeTypes k) (a, eo)),
                            snd (build_loop (getAttributeTypes k) (a, eo)))"
    by simp
  show "\<forall>key. get_attr a key \<noteq> JUndefined \<longrightarrow>
          get_attr (fst (build_loop (getAttributeTypes k) (a, eo))) key = get_attr a key"
    using build_loop_keep by blast
  show "\<forall>(key, d) \<in> set (getAttributeTypes k). get_attr a key = JUndefined \<longrightarrow>
          get_attr (fst (build_loop (getAttributeTypes k) (a, eo))) key = default_value d"
    using build_loop_fill [OF distinct_getAttributeTypes] by blast
qed

theorem build_backfills_witness:
  "\<exists>a' eo'. build LogBlock [(''text'', JStr ''hi'')] None = Inr (''LogBlock'', a', eo') \<and>
     get_attr a' ''text'' = JStr ''hi'' \<and> get_attr a' ''level'' = JStr ''log''"
proof -
  obtain a' eo' where b: "build LogBlock [(''text'', JStr ''hi'')] None = Inr (kind_name LogBlock, a', eo')"
    and keep: "\<forall>key. get_attr [(''text'', JStr ''hi'')] key \<noteq> JUndefined \<longrightarrow>
                 get_attr a' key = get_attr [(''text'', JStr ''hi'')] key"
    and fill: "\<forall>(key, d) \<in> set (getAttributeTypes LogBlock).
                 get_attr [(''text'', JStr ''hi'')] key = JUndefined \<longrightarrow> get_attr a' key = default_value d"
    using build_backfills [of LogBlock "[(''text'', JStr ''hi'')]" None] by blast
  have "get_attr a' ''text'' = JStr ''hi''" using keep by (simp add: get_attr_def)
  moreover have "get_attr a' ''level'' = JStr ''log''"
    using fill by (simp add: getAttributeTypes_LogBlock LogBlock_defaultAttr_def get_attr_def)
  ultimately show ?thesis using b by simp
qed

text \<open>C18. Typing: a block whose stored attributes have the types its merged schema declares
  still has them after \<open>build\<close>, and then every declared attribute is defined.\<close>

theorem build_typed:
  assumes "attrs_typed (getAttributeTypes k) a" and "build k a eo = Inr (t, a', eo')"
  shows "attrs_typed (getAttributeTypes k) a' \<and> (\<forall>key \<in> fst ` set (getAttributeTypes k). get_attr a' key \<noteq> JUndefined)"
proof
  have a': "a' = fst (build_loop (getAttributeTypes k) (a, eo))" using assms(2) by simp
  show "\<forall>key \<in> fst ` set (getAttributeTypes k). get_attr a' key \<noteq> JUndefined"
    unfolding a' using build_loop_defined by blast
  have "value_fits (atype d) (get_attr a' key)" if kd: "(key, d) \<in> set (getAttributeTypes k)" for key d
  proof (cases "get_attr a key = JUndefined")
    case True
    then show ?thesis using build_loop_fill [OF distinct_getAttributeTypes kd True] getAttributeTypes_defaults [OF kd] a' by simp
  next
    case False
    then show ?thesis using assms(1) kd a' build_loop_keep by (fastforce simp: attrs_typed_def list_all_iff)
  qed
  then show "attrs_typed (getAttributeTypes k) a'" by (auto simp: attrs_typed_def list_all_iff)
qed

theorem build_typed_witness:
  "attrs_typed (getAttributeTypes LogBlock) (fst (build_loop (getAttributeTypes LogBlock) ([(''text'', JStr ''hi'')], None)))"
proof -
  have "attrs_typed (getAttributeTypes LogBlock) [(''text'', JStr ''hi'')]"
    by (simp add: getAttributeTypes_LogBlock LogBlock_defaultAttr_def attrs_typed_def)
  then show ?thesis
    using build_typed [of LogBlock "[(''text'', JStr ''hi'')]" None "kind_name LogBlock"
        "fst (build_loop (getAttributeTypes LogBlock) ([(''text'', JStr ''hi'')], None))"
        "snd (build_loop (getAttributeTypes LogBlock) ([(''text'', JStr ''hi'')], None))"]
    by simp
qed

section \<open>Lemmas on rehydration\<close>

lemma build_Block [simp]: "build Block a eo = Inr (''Block'', a, eo)"
  by (simp add: getAttributeTypes_Block)

lemma reg_block_simp:
  "reg_block k i mk tab =
     (if (is_if k \<or> is_loop k) \<and> mk = None then Inl MarkerMissing
      else Inr (insert i tab \<union> (if is_if k \<or> is_loop k then set_option mk else {})))"
  by (cases mk) (auto simp: reg_block_def regId_def)

lemma tag_fault_None:
  "tag_fault t mk = None \<longleftrightarrow> getBlockByType t \<noteq> Some TObjectCtor \<and> \<not> (compound_tag t \<and> mk = None)"
  by (simp add: tag_fault_def)

lemma toBlock_SNode:
  "toBlock (SNode t i a eo al ag mk cs) tab =
     (case tag_fault t mk of
        Some e \<Rightarrow> Inl e
      | None \<Rightarrow> sbind (toBlocks cs (insert i tab \<union> (if compound_tag t then set_option mk else {})))
                 (\<lambda>(ns, tab2). Inr (Node i (class_of_tag t) (fst (build_loop (getAttributeTypes (class_of_tag t)) (a, eo))) al ag ns, tab2)))"
  by (simp add: tag_fault_def reg_block_simp compound_tag_def Let_def split_def del: is_if_iff is_loop_iff)

lemma toBlocks_Cons:
  "toBlocks (c # cs) tab = sbind (toBlock c tab) (\<lambda>(n, tab1). sbind (toBlocks cs tab1) (\<lambda>(ns, tab2). Inr (n # ns, tab2)))"
  by simp

declare toBlock.simps [simp del] toBlocks.simps(2) [simp del]


text \<open>The node \<open>toBlock\<close> makes of a stored block once its children are rehydrated.\<close>

lemma toBlock_ok:
  "tag_fault t mk = None \<Longrightarrow>
   toBlock (SNode t i a eo al ag mk cs) tab =
     sbind (toBlocks cs (insert i tab \<union> (if compound_tag t then set_option mk else {})))
           (\<lambda>(ns, tab2). Inr (Node i (class_of_tag t) (fst (build_loop (getAttributeTypes (class_of_tag t)) (a, eo))) al ag ns, tab2))"
  by (simp add: toBlock_SNode)

lemma toBlock_fails:
  "toBlock c tab = Inl e \<longleftrightarrow> fault c = Some e"
  "toBlocks cs tab = Inl e \<longleftrightarrow> fault_all cs = Some e"
proof (induction c tab and cs tab arbitrary: e and e rule: toBlock_toBlocks.induct)
  case (1 t i a eo al ag mk cs tab)
  note IH = 1 [OF _ refl]
  show ?case
  proof (cases "tag_fault t mk")
    case None
    let ?T = "insert i tab \<union> (if compound_tag t then set_option mk else {})"
    have eq: "toBlock (SNode t i a eo al ag mk cs) tab = sbind (toBlocks cs ?T) (\<lambda>(ns, tab2). Inr (Node i (class_of_tag t) (fst (build_loop (getAttributeTypes (class_of_tag t)) (a, eo))) al ag ns, tab2))"
      using None by (rule toBlock_ok)
    have nt: "getBlockByType t \<noteq> Some TObjectCtor" using None by (simp add: tag_fault_None)
    have f: "fault (SNode t i a eo al ag mk cs) = fault_all cs" using None by simp
    show ?thesis
    proof (cases "toBlocks cs ?T")
      case (Inl e')
      then show ?thesis unfolding eq f using IH [OF nt, of ?T] by auto
    next
      case (Inr r)
      then show ?thesis unfolding eq f using IH [OF nt, of ?T] by (cases r) auto
    qed
  qed (auto simp: toBlock_SNode)
next
  case (2 tab)
  then show ?case by (simp add: toBlocks.simps(2))
next
  case (3 c cs tab)
  show ?case
  proof (cases "toBlock c tab")
    case (Inl e')
    then show ?thesis using 3(1) [of e'] by (auto simp: toBlocks_Cons)
  next
    case (Inr r)
    obtain n tab1 where r: "r = (n, tab1)" by (cases r) auto
    have "fault c = None" using 3(1) Inr by (cases "fault c") auto
    then show ?thesis using 3(2) [of tab1 e] Inr r
      by (cases "toBlocks cs tab1") (auto simp: toBlocks_Cons)
  qed
qed

lemma toBlock_regs:
  "toBlock c tab = Inr (n, tab') \<Longrightarrow>
     tab' = tab \<union> registered c \<and> nid n = sid c \<and> nkind n = class_of_tag (stype c)"
  "toBlocks cs tab = Inr (ns, tab') \<Longrightarrow>
     tab' = tab \<union> registered_all cs \<and> map nid ns = map sid cs \<and> map nkind ns = map (class_of_tag \<circ> stype) cs"
proof (induction c tab and cs tab arbitrary: n tab' and ns tab' rule: toBlock_toBlocks.induct)
  case (1 t i a eo al ag mk cs tab)
  let ?T = "insert i tab \<union> (if compound_tag t then set_option mk else {})"
  have ok: "tag_fault t mk = None"
    using "1.prems" toBlock_fails(1) [of "SNode t i a eo al ag mk cs" tab] by (cases "tag_fault t mk") auto
  then have nt: "getBlockByType t \<noteq> Some TObjectCtor" by (simp add: tag_fault_None)
  obtain ns where ns: "toBlocks cs ?T = Inr (ns, tab')"
    using "1.prems" unfolding toBlock_ok [OF ok] by (cases "toBlocks cs ?T") auto
  have "tab' = ?T \<union> registered_all cs" using 1(1) [OF nt refl ns] by blast
  then show ?case using "1.prems" ns unfolding toBlock_ok [OF ok] by auto
next
  case (2 tab)
  then show ?case by (simp add: toBlocks.simps(2))
next
  case (3 c cs tab)
  obtain n tab1 where c: "toBlock c tab = Inr (n, tab1)"
    using "3.prems" by (cases "toBlock c tab") (auto simp: toBlocks_Cons)
  obtain ns' where cs: "toBlocks cs tab1 = Inr (ns', tab')" and ns: "ns = n # ns'"
    using "3.prems" c by (cases "toBlocks cs tab1") (auto simp: toBlocks_Cons)
  show ?case using 3(1) [OF c] 3(2) [OF cs] ns by auto
qed


lemma defaultAttr_keys: "fst ` set (defaultAttr k) \<subseteq> fst ` set (getAttributeTypes k)"
  by (subst getAttributeTypes.simps) auto

lemma toBlock_filled:
  "toBlock c tab = Inr (n, tab') \<Longrightarrow> filled n"
  "toBlocks cs tab = Inr (ns, tab') \<Longrightarrow> filled_all ns"
proof (induction c tab and cs tab arbitrary: n tab' and ns tab' rule: toBlock_toBlocks.induct)
  case (1 t i a eo al ag mk cs tab)
  let ?T = "insert i tab \<union> (if compound_tag t then set_option mk else {})"
  let ?k = "class_of_tag t"
  have ok: "tag_fault t mk = None"
    using "1.prems" toBlock_fails(1) [of "SNode t i a eo al ag mk cs" tab] by (cases "tag_fault t mk") auto
  then have nt: "getBlockByType t \<noteq> Some TObjectCtor" by (simp add: tag_fault_None)
  obtain ns where ns: "toBlocks cs ?T = Inr (ns, tab')"
    and n: "n = Node i ?k (fst (build_loop (getAttributeTypes ?k) (a, eo))) al ag ns"
    using "1.prems" unfolding toBlock_ok [OF ok] by (cases "toBlocks cs ?T") auto
  have "list_all (\<lambda>kd. get_attr (fst (build_loop (getAttributeTypes ?k) (a, eo))) (fst kd) \<noteq> JUndefined) (defaultAttr ?k)"
    unfolding list_all_iff
  proof
    fix kd assume "kd \<in> set (defaultAttr ?k)"
    then have "fst kd \<in> fst ` set (getAttributeTypes ?k)" using defaultAttr_keys by blast
    then show "get_attr (fst (build_loop (getAttributeTypes ?k) (a, eo))) (fst kd) \<noteq> JUndefined"
      by (rule build_loop_defined)
  qed
  then show ?case using 1(1) [OF nt refl ns] n by simp
next
  case (2 tab)
  then show ?case by (simp add: toBlocks.simps(2))
next
  case (3 c cs tab)
  obtain n tab1 where c: "toBlock c tab = Inr (n, tab1)"
    using "3.prems" by (cases "toBlock c tab") (auto simp: toBlocks_Cons)
  obtain ns' where cs: "toBlocks cs tab1 = Inr (ns', tab')" and ns: "ns = n # ns'"
    using "3.prems" c by (cases "toBlocks cs tab1") (auto simp: toBlocks_Cons)
  show ?case using 3(1) [OF c] 3(2) [OF cs] ns by simp
qed

lemma destroy_ids:
  "destroy c tab = tab - block_ids c"
  "destroy_all cs tab = tab - block_ids_all cs"
  by (induction c tab and cs tab rule: destroy_destroy_all.induct) (auto simp: removeBlockById_def)

lemma registerRootBlock_Some:
  "registerRootBlock (Some (SNode t i a eo al ag mk cs)) fresh tab =
     sbind (toBlocks cs (insert i tab)) (\<lambda>(ns, tab1). Inr (Node i RootBlock a al ag ns, tab1))"
  by (simp add: registerRootBlock_def regId_def)


section \<open>Properties of rehydration\<close>

text \<open>C19. A stored block whose type tag names no class (and is no member \<open>blockTypes\<close>
  inherits, or one without a \<open>prototype\<close>) is not rejected: it becomes a plain \<open>Block\<close>
  with its stored attributes unchanged (the base schema is empty), \<open>build\<close> overwrites its
  tag with \<open>"Block"\<close>, its marker is not registered, and rehydration goes on with its
  children. A corrupt or unsupported tag is therefore lost silently at the next save.\<close>

theorem unknown_tag_rehydrates_as_Block:
  assumes "getBlockByType t = None \<or> getBlockByType t = Some TInherited"
  shows "class_of_tag t = Block \<and> build (class_of_tag t) a eo = Inr (''Block'', a, eo) \<and>
         toBlock (SNode t i a eo al ag mk cs) tab =
           sbind (toBlocks cs (insert i tab)) (\<lambda>(ns, tab'). Inr (Node i Block a al ag ns, tab'))"
proof -
  have k: "class_of_tag t = Block" using assms by (auto simp: class_of_tag_def)
  then have "tag_fault t mk = None" using assms by (auto simp: tag_fault_def compound_tag_def)
  then show ?thesis using toBlock_ok [of t mk i a eo al ag cs tab] k
    by (simp add: getAttributeTypes_Block compound_tag_def)
qed

theorem unknown_tag_rehydrates_as_Block_witness:
  "class_of_tag ''FooBlock'' = Block \<and>
   build (class_of_tag ''FooBlock'') [(''x'', JNum 1)] None = Inr (''Block'', [(''x'', JNum 1)], None) \<and>
   toBlock (SNode ''FooBlock'' 7 [(''x'', JNum 1)] None [] [] None []) {} =
     Inr (Node 7 Block [(''x'', JNum 1)] [] [] [], {7})"
proof -
  have g: "getBlockByType ''FooBlock'' = None \<or> getBlockByType ''FooBlock'' = Some TInherited" by code_simp
  show ?thesis
    using unknown_tag_rehydrates_as_Block [OF g, of "[(''x'', JNum 1)]" None 7 "[]" "[]" None "[]" "{}"]
    by (simp add: toBlocks.simps(2) del: build_kind)
qed

text \<open>C20. Rehydration fails exactly when some stored block below the root is faulty, with
  the error of the first faulty block in the order \<open>toBlocks\<close> visits them: the
  \<open>TypeError\<close> of calling \<open>build\<close> on a block tagged \<open>constructor\<close> (whose prototype
  becomes \<open>Object.prototype\<close>), or the \<open>TypeError\<close> of an \<open>IfBlock\<close> or \<open>LoopBlock\<close>
  without its stored marker. Without a stored root a fresh one is made and nothing fails.\<close>

theorem registerRootBlock_fails_iff:
  "registerRootBlock r fresh tab = Inl e \<longleftrightarrow>
     (\<exists>s. r = Some s \<and> fault_all (schildren s) = Some e)"
proof (cases r)
  case (Some s)
  obtain t i a eo al ag mk cs where s: "s = SNode t i a eo al ag mk cs" by (cases s) auto
  show ?thesis
  proof (cases "toBlocks cs (insert i tab)")
    case (Inl e')
    have "registerRootBlock r fresh tab = Inl e'" using Inl Some s by (simp add: registerRootBlock_Some)
    moreover have "fault_all cs = Some e'" using Inl toBlock_fails(2) by blast
    ultimately show ?thesis using Some s by auto
  next
    case (Inr r')
    have "\<not> isl (registerRootBlock r fresh tab)" using Inr Some s by (cases r') (simp add: registerRootBlock_Some)
    moreover have "fault_all cs = None" using Inr toBlock_fails(2) [of cs "insert i tab"] by (cases "fault_all cs") auto
    ultimately show ?thesis using Some s by auto
  qed
qed (simp add: registerRootBlock_def)

theorem registerRootBlock_fails_iff_witness:
  "registerRootBlock (Some (SNode (kind_name RootBlock) 0 [] None [] [] None
      [SNode ''constructor'' 1 [] None [] [] None [],
       SNode (kind_name LoopBlock) 2 [] None [] [] None []])) 9 {} = Inl NotABlock"
proof -
  have f: "fault_all [SNode ''constructor'' 1 [] None [] [] None [],
       SNode (kind_name LoopBlock) 2 [] None [] [] None []] = Some NotABlock"
    by code_simp
  show ?thesis
    using registerRootBlock_fails_iff [of "Some (SNode (kind_name RootBlock) 0 [] None [] [] None
      [SNode ''constructor'' 1 [] None [] [] None [],
       SNode (kind_name LoopBlock) 2 [] None [] [] None []])" 9 "{}" NotABlock] f
    by simp
qed


text \<open>C21. A rehydrated tree keeps the stored ids and the child order, gives every block the
  class its tag names and the root the class \<open>RootBlock\<close>, and the id table gains exactly
  the root's id, every block's id, and the end-marker id of every compound block.\<close>

theorem registerRootBlock_registers:
  assumes "registerRootBlock (Some s) fresh tab = Inr (root, tab')"
  shows "tab' = tab \<union> insert (sid s) (registered_all (schildren s)) \<and> nid root = sid s \<and>
         nkind root = RootBlock \<and> map nid (nchildren root) = map sid (schildren s) \<and>
         map nkind (nchildren root) = map (class_of_tag \<circ> stype) (schildren s)"
proof -
  obtain t i a eo al ag mk cs where s: "s = SNode t i a eo al ag mk cs" by (cases s) auto
  obtain ns where ns: "toBlocks cs (insert i tab) = Inr (ns, tab')"
    and root: "root = Node i RootBlock a al ag ns"
    using assms s by (cases "toBlocks cs (insert i tab)") (auto simp: registerRootBlock_Some)
  show ?thesis using toBlock_regs(2) [OF ns] s root by auto
qed

theorem registerRootBlock_registers_witness:
  "registerRootBlock (Some (SNode (kind_name RootBlock) 0 [] None [] [] None
      [SNode (kind_name IfStringBlock) 1 [] None [] [] (Some 2)
         [SNode (kind_name ExitBlock) 3 [] None [] [] None []]])) 9 {}
     = Inr (Node 0 RootBlock [] [] []
              [Node 1 IfStringBlock (fst (build_loop (getAttributeTypes IfStringBlock) ([], None))) [] []
                 [Node 3 ExitBlock [] [] [] []]], {0, 1, 2, 3}) \<and>
   {0, 1, 2, 3} = {} \<union> insert (0::nat) (registered_all [SNode (kind_name IfStringBlock) 1 [] None [] [] (Some 2)
         [SNode (kind_name ExitBlock) 3 [] None [] [] None []]])"
proof -
  have r: "registerRootBlock (Some (SNode (kind_name RootBlock) 0 [] None [] [] None
      [SNode (kind_name IfStringBlock) 1 [] None [] [] (Some 2)
         [SNode (kind_name ExitBlock) 3 [] None [] [] None []]])) 9 {}
     = Inr (Node 0 RootBlock [] [] []
              [Node 1 IfStringBlock (fst (build_loop (getAttributeTypes IfStringBlock) ([], None))) [] []
                 [Node 3 ExitBlock [] [] [] []]], {0, 1, 2, 3})"
    by (simp add: registerRootBlock_Some toBlocks_Cons toBlock_SNode toBlocks.simps(2) compound_tag_def tag_fault_def
                  getAttributeTypes_super getAttributeTypes_Block schema_defs obj_of_def insert_commute
             del: kind_name.simps)
  show ?thesis using registerRootBlock_registers [OF r] r by simp
qed


text \<open>C22. \<open>destroy()\<close> removes from the id table the ids of the block and of all its
  descendants, and nothing else: the end marker of a destroyed \<open>IfBlock\<close> or \<open>LoopBlock\<close>,
  registered by rehydration, stays in the table, so \<open>findBlockById\<close> still finds it.\<close>

theorem destroy_keeps_marker:
  assumes "smarker c = Some m" and "m \<notin> block_ids c" and "findBlockById m tab"
  shows "findBlockById m (destroy c tab) \<and> \<not> findBlockById (sid c) (destroy c tab)"
proof -
  have "sid c \<in> block_ids c" by (cases c) simp
  then show ?thesis using assms by (simp add: destroy_ids(1) findBlockById_def)
qed

theorem destroy_keeps_marker_witness:
  "findBlockById 2 (destroy (SNode (kind_name IfStringBlock) 1 [] None [] [] (Some 2)
                       [SNode (kind_name ExitBlock) 3 [] None [] [] None []]) {0, 1, 2, 3}) \<and>
   \<not> findBlockById 1 (destroy (SNode (kind_name IfStringBlock) 1 [] None [] [] (Some 2)
                       [SNode (kind_name ExitBlock) 3 [] None [] [] None []]) {0, 1, 2, 3::nat})"
  using destroy_keeps_marker [of "SNode (kind_name IfStringBlock) 1 [] None [] [] (Some 2)
                       [SNode (kind_name ExitBlock) 3 [] None [] [] None []]" 2 "{0, 1, 2, 3}"]
  by (simp add: findBlockById_def del: kind_name.simps)

text \<open>C23. Rehydration feeds the compiler complete blocks: in a tree \<open>registerRootBlock\<close>
  returns, every block below the root has a defined value for every attribute its class's
  \<open>defaultAttr\<close> declares, so no \<open>parseScriptAttribute\<close> call of \<open>toScript\<close> reads
  \<open>undefined\<close> from it.\<close>

theorem registerRootBlock_filled:
  "registerRootBlock r fresh tab = Inr (root, tab') \<Longrightarrow> filled_all (nchildren root)"
proof (cases r)
  case (Some s)
  obtain t i a eo al ag mk cs where s: "s = SNode t i a eo al ag mk cs" by (cases s) auto
  assume reg: "registerRootBlock r fresh tab = Inr (root, tab')"
  obtain ns where ns: "toBlocks cs (insert i tab) = Inr (ns, tab')"
    and root: "root = Node i RootBlock a al ag ns"
    using reg Some s by (cases "toBlocks cs (insert i tab)") (auto simp: registerRootBlock_Some)
  show ?thesis using toBlock_filled(2) [OF ns] root by simp
qed (auto simp: registerRootBlock_def)

theorem registerRootBlock_filled_witness:
  "filled_all [Node 1 LogBlock (fst (build_loop (getAttributeTypes LogBlock) ([], None))) [] [] []]"
proof -
  have r: "registerRootBlock (Some (SNode (kind_name RootBlock) 0 [] None [] [] None
      [SNode (kind_name LogBlock) 1 [] None [] [] None []])) 9 {}
     = Inr (Node 0 RootBlock [] [] [] [Node 1 LogBlock (fst (build_loop (getAttributeTypes LogBlock) ([], None))) [] [] []], {0, 1})"
    by (simp add: registerRootBlock_Some toBlocks_Cons toBlock_SNode toBlocks.simps(2) compound_tag_def tag_fault_def
                  insert_commute del: kind_name.simps)
  show ?thesis using registerRootBlock_filled [OF r] by simp
qed

end
