(* ===== verification/Macros.thy ===== *)
theory Macros
  imports Prelude
begin

text \<open>
  Macro recording and replay in the background worker, \<open>src/src/entries/background.js\<close>:
  the classes \<open>RecordMacro\<close> and \<open>ExecuteMacro\<close>, the global \<open>recordMacro\<close> and
  \<open>executeMacroPool\<close>, and the \<open>Macro.*\<close> message handlers. The browser is the part of
  its state these classes change: the open windows, the \<open>page_spy\<close> user script, the
  header rule that removes CSP, the two context-menu items, and the listeners registered on
  \<open>windows.onRemoved\<close>, \<open>tabs.onRemoved\<close>, \<open>tabs.onActivated\<close> and
  \<open>contextMenus.onClicked\<close>, each tagged with the session that registered it. The values the
  browser supplies (fresh ids, the clock, the active tab, the result of replaying one event)
  are parameters of the events. A macro's recorded events keep their data as an opaque string.
\<close>

section \<open>State\<close>

datatype rec_status = RIdle | RReady | RRecording | RFinished

datatype rec_entry = Sleep int | Action string

text \<open>A \<open>RecordMacro\<close>: \<open>status\<close>, \<open>macroId\<close>, \<open>recEvents\<close>, the two times, the window
  it opened, and the tab its \<open>TabMessageClient\<close> is connected to (\<open>None\<close> once
  disconnected).\<close>

record recorder =
  rstatus :: rec_status
  macroId :: string
  recEvents :: "rec_entry list"
  recStartTime :: int
  recLastEventTime :: int
  recWindowId :: "nat option"
  recTab :: "nat option"

datatype exec_status = EIdle | EExecuting | EFinished

text \<open>An \<open>ExecuteMacro\<close>: its status, the macro it replays and the events read from storage
  (\<open>None\<close> when \<open>storage.getKey\<close> found nothing).\<close>

record executor =
  estatus :: exec_status
  emacro :: string
  execMacro :: "rec_entry list option"

text \<open>Listeners are recorded by the id of the session that registered them; a
  \<open>windows.onRemoved\<close> listener also carries the window it watches.\<close>

record browser =
  openWindows :: "nat list"
  spyRegistered :: bool
  cspRule :: bool
  menus :: "string list"
  winRemovedL :: "(string \<times> nat) list"
  tabRemovedL :: "string list"
  tabActivatedL :: "string list"
  menuClickL :: "string list"

text \<open>The worker: \<open>recordMacro\<close>, \<open>executeMacroPool\<close>, the browser, the stored
  \<open>Macro.List\<close> (id and \<open>stepCount\<close> of each entry), the stored \<open>Macro.<id>\<close> event lists,
  and the broadcasts sent to every tab.\<close>

record bg =
  recordMacro :: "recorder option"
  executeMacroPool :: "(string \<times> executor) list"
  br :: browser
  macroList :: "(string \<times> nat) list"
  macroStore :: "(string \<times> rec_entry list) list"
  broadcasts :: "string list"

datatype merror = RecordActive | RecorderUndefined | MacroRunning | MacroMissing

definition new_recorder :: "string \<Rightarrow> recorder" where
  "new_recorder mid =
     \<lparr>rstatus = RIdle, macroId = mid, recEvents = [], recStartTime = 0, recLastEventTime = 0,
      recWindowId = None, recTab = None\<rparr>"

section \<open>RecordMacro\<close>

text \<open>\<open>openRecordWindow()\<close>: only from \<open>idle\<close>; opens the window \<open>w\<close>, watches its removal,
  registers \<open>page_spy\<close> and the CSP rule, adds the two menu items and their click listener,
  announces \<open>Macro.RecordReady\<close>, and becomes \<open>ready\<close>.\<close>

definition openRecordWindow :: "nat \<Rightarrow> recorder \<Rightarrow> bg \<Rightarrow> recorder \<times> bg" where
  "openRecordWindow w r s =
     (if rstatus r \<noteq> RIdle then (r, s)
      else (r\<lparr>recWindowId := Some w, rstatus := RReady\<rparr>,
            s\<lparr>br := (br s)\<lparr>openWindows := openWindows (br s) @ [w],
                             winRemovedL := winRemovedL (br s) @ [(macroId r, w)],
                             spyRegistered := True, cspRule := True,
                             menus := menus (br s) @ [''bb_startRecord'', ''bb_stopRecord''],
                             menuClickL := menuClickL (br s) @ [macroId r]\<rparr>,
              broadcasts := broadcasts s @ [''Macro.RecordReady'']\<rparr>))"

text \<open>\<open>changeRecordingTab(tab)\<close>: disconnect the old client, connect one to \<open>tab\<close>.\<close>

definition changeRecordingTab :: "nat \<Rightarrow> recorder \<Rightarrow> recorder" where
  "changeRecordingTab t r = r\<lparr>recTab := Some t\<rparr>"

text \<open>\<open>startRecord()\<close>: only from \<open>ready\<close>; on a tab whose URL is not
  \<open>http(s)/file/urn/ftp\<close> it alerts and stays \<open>ready\<close>; otherwise it connects to the tab,
  starts the clock at \<open>now\<close>, watches tab switches in its window, and becomes
  \<open>recording\<close>.\<close>

definition startRecord :: "nat \<Rightarrow> bool \<Rightarrow> int \<Rightarrow> recorder \<Rightarrow> bg \<Rightarrow> recorder \<times> bg" where
  "startRecord t url_ok now r s =
     (if rstatus r \<noteq> RReady then (r, s)
      else if \<not> url_ok then (r, s)
      else ((changeRecordingTab t r)\<lparr>recStartTime := now, recLastEventTime := now, rstatus := RRecording\<rparr>,
            s\<lparr>br := (br s)\<lparr>tabActivatedL := tabActivatedL (br s) @ [macroId r]\<rparr>\<rparr>))"

text \<open>The \<open>record\<close> route of \<open>recTabRouter\<close>: a sleep for the time since the last event,
  then the event; only a connected client delivers it.\<close>

definition record_action :: "string \<Rightarrow> int \<Rightarrow> recorder \<Rightarrow> recorder" where
  "record_action d now r =
     (if recTab r = None then r
      else r\<lparr>recEvents := recEvents r @ [Sleep (now - recLastEventTime r), Action d],
             recLastEventTime := now\<rparr>)"

text \<open>\<open>stopRecord()\<close>: only from \<open>ready\<close> or \<open>recording\<close>; becomes \<open>finished\<close>, removes
  its \<open>tabs.onActivated\<close> listener and (as written) its window listener from
  \<open>tabs.onRemoved\<close>, closes the window, unregisters \<open>page_spy\<close> and the CSP rule,
  disconnects, removes the menu items and their listener, saves a non-empty recording as a
  new \<open>Macro.List\<close> entry and \<open>Macro.<id>\<close>, and announces \<open>Macro.RecordStopped\<close>.\<close>

definition stopRecord :: "recorder \<Rightarrow> bg \<Rightarrow> recorder \<times> bg" where
  "stopRecord r s =
     (if rstatus r \<noteq> RReady \<and> rstatus r \<noteq> RRecording then (r, s)
      else
        (let b = br s;
             b' = b\<lparr>tabActivatedL := removeAll (macroId r) (tabActivatedL b),
                    tabRemovedL := removeAll (macroId r) (tabRemovedL b),
                    openWindows := (case recWindowId r of None \<Rightarrow> openWindows b
                                    | Some w \<Rightarrow> removeAll w (openWindows b)),
                    spyRegistered := False, cspRule := False,
                    menus := removeAll ''bb_stopRecord'' (removeAll ''bb_startRecord'' (menus b)),
                    menuClickL := removeAll (macroId r) (menuClickL b)\<rparr>;
             saved = (if recEvents r = [] then (macroList s, macroStore s)
                      else (macroList s @ [(macroId r, length (recEvents r))],
                            aupd (macroId r) (recEvents r) (macroStore s)))
         in (r\<lparr>rstatus := RFinished, recTab := None\<rparr>,
             s\<lparr>br := b', macroList := fst saved, macroStore := snd saved,
               broadcasts := broadcasts s @ [''Macro.RecordStopped'']\<rparr>)))"

section \<open>ExecuteMacro\<close>

text \<open>\<open>executeEvent(event)\<close>: a sleep always succeeds; an action succeeds as the tab
  answers (\<open>execute_result\<close>, or \<open>#disconnect\<close> which counts as success), given by
  \<open>ok i\<close> for the \<open>i\<close>-th event.\<close>

definition executeEvent :: "(nat \<Rightarrow> bool) \<Rightarrow> nat \<Rightarrow> rec_entry \<Rightarrow> bool" where
  "executeEvent ok i e = (case e of Sleep _ \<Rightarrow> True | Action _ \<Rightarrow> ok i)"

text \<open>The loop of \<open>startExecute\<close>: the events run in order; the first that fails ends the
  loop (\<open>break\<close>). The result lists each event run with its outcome.\<close>

fun exec_loop :: "(nat \<Rightarrow> bool) \<Rightarrow> nat \<Rightarrow> rec_entry list \<Rightarrow> (nat \<times> bool) list" where
  "exec_loop ok i [] = []"
| "exec_loop ok i (e # es) =
     (if executeEvent ok i e then (i, True) # exec_loop ok (Suc i) es else [(i, False)])"

text \<open>The handler \<open>Macro.Execute\<close>, first half: a macro already in the pool and not
  \<open>finished\<close> is refused; otherwise a new \<open>ExecuteMacro\<close> enters the pool and
  \<open>startExecute\<close> sets it \<open>executing\<close>, reads \<open>Macro.<id>\<close>, and adds its
  \<open>tabs.onActivated\<close> listener. With nothing stored, \<open>this.execMacro.length\<close> throws: the
  \<open>then\<close> that removes the pool entry never runs, and neither does the code that removes
  the listener.\<close>

definition startExecute :: "string \<Rightarrow> bg \<Rightarrow> merror option \<times> bg" where
  "startExecute mid s =
     (let ev = map_of (macroStore s) mid;
          s' = s\<lparr>executeMacroPool := aupd mid \<lparr>estatus = EExecuting, emacro = mid, execMacro = ev\<rparr>
                                          (executeMacroPool s),
                 br := (br s)\<lparr>tabActivatedL := tabActivatedL (br s) @ [''exec:'' @ mid]\<rparr>\<rparr>
      in (if ev = None then Some MacroMissing else None, s'))"

definition execute_start :: "string \<Rightarrow> bg \<Rightarrow> merror option \<times> bg" where
  "execute_start mid s =
     (case map_of (executeMacroPool s) mid of
        Some e \<Rightarrow> if estatus e \<noteq> EFinished then (Some MacroRunning, s) else startExecute mid s
      | None \<Rightarrow> startExecute mid s)"

text \<open>Second half: when the loop of an executing macro with stored events ends, its
  listener is removed, it is \<open>finished\<close>, the pool entry is deleted and
  \<open>Macro.ExecuteFinish\<close> is broadcast. The result is the events run.\<close>

definition execute_finish :: "string \<Rightarrow> (nat \<Rightarrow> bool) \<Rightarrow> bg \<Rightarrow> (nat \<times> bool) list \<times> bg" where
  "execute_finish mid ok s =
     (case map_of (executeMacroPool s) mid of
        Some e \<Rightarrow>
          (case (estatus e, execMacro e) of
             (EExecuting, Some evs) \<Rightarrow>
               (exec_loop ok 0 evs,
                s\<lparr>executeMacroPool := adel mid (executeMacroPool s),
                  br := (br s)\<lparr>tabActivatedL := removeAll (''exec:'' @ mid) (tabActivatedL (br s))\<rparr>,
                  broadcasts := broadcasts s @ [''Macro.ExecuteFinish'']\<rparr>)
           | _ \<Rightarrow> ([], s))
      | None \<Rightarrow> ([], s))"

section \<open>The handlers\<close>

text \<open>Handlers that act on \<open>recordMacro\<close>: with no recorder the method call on
  \<open>undefined\<close> throws, and the handler rethrows.\<close>

definition on_recorder :: "(recorder \<Rightarrow> bg \<Rightarrow> recorder \<times> bg) \<Rightarrow> bg \<Rightarrow> merror option \<times> bg" where
  "on_recorder f s =
     (case recordMacro s of
        None \<Rightarrow> (Some RecorderUndefined, s)
      | Some r \<Rightarrow> (let (r', s') = f r s in (None, s'\<lparr>recordMacro := Some r'\<rparr>)))"

text \<open>\<open>Macro.InitRecord\<close>: a new recorder with the fresh id \<open>mid\<close> unless one exists that
  is not \<open>finished\<close>.\<close>

definition InitRecord :: "string \<Rightarrow> bg \<Rightarrow> merror option \<times> bg" where
  "InitRecord mid s =
     (case recordMacro s of
        Some r \<Rightarrow> if rstatus r = RFinished then (None, s\<lparr>recordMacro := Some (new_recorder mid)\<rparr>)
                  else (Some RecordActive, s)
      | None \<Rightarrow> (None, s\<lparr>recordMacro := Some (new_recorder mid)\<rparr>))"

text \<open>\<open>Macro.IsRecordMode\<close> and \<open>Macro.IsExecuteMode\<close>, \<open>Macro.IsExecuting\<close>.\<close>

definition IsRecordMode :: "bg \<Rightarrow> bool" where
  "IsRecordMode s = (case recordMacro s of None \<Rightarrow> False | Some r \<Rightarrow> rstatus r \<noteq> RFinished)"

definition IsExecuteMode :: "bg \<Rightarrow> bool" where
  "IsExecuteMode s = (executeMacroPool s \<noteq> [])"

definition IsExecuting :: "string \<Rightarrow> bg \<Rightarrow> bool" where
  "IsExecuting mid s = (map_of (executeMacroPool s) mid \<noteq> None)"

text \<open>The events of the worker: the handlers, the browser's callbacks (the active tab
  switching in a window, a window closing, a menu click), and the record route.\<close>

datatype mev =
    MInitRecord string | MReadyRecord nat | MStartRecord nat bool int | MStopRecord
  | MTabActivated nat nat | MWindowRemoved nat | MMenuClick string nat bool int
  | MRecord string int | MExecute string | MExecuteDone string "nat \<Rightarrow> bool"

text \<open>\<open>onRecordTabChanged\<close>: a tab activated in the recording window becomes the recorded
  tab; the listener is added by \<open>startRecord\<close> and removed by \<open>stopRecord\<close>, so it
  is live exactly while its session is \<open>recording\<close>. \<open>onRecordTabRemoved\<close>: each \<open>windows.onRemoved\<close> listener whose window closed calls
  \<open>recordMacro.stopRecord()\<close> on the current recorder.\<close>

definition tab_changed :: "nat \<Rightarrow> nat \<Rightarrow> recorder \<Rightarrow> bg \<Rightarrow> recorder \<times> bg" where
  "tab_changed t w r s =
     (if rstatus r = RRecording \<and> recWindowId r = Some w then (changeRecordingTab t r, s) else (r, s))"

definition window_removed :: "nat \<Rightarrow> bg \<Rightarrow> bg" where
  "window_removed w s =
     (if (\<exists>p \<in> set (winRemovedL (br s)). snd p = w) then snd (on_recorder stopRecord s) else s)"

text \<open>\<open>onContextMenuClick\<close>: \<open>bb_startRecord\<close> starts, \<open>bb_stopRecord\<close> stops.\<close>

definition menu_click :: "string \<Rightarrow> nat \<Rightarrow> bool \<Rightarrow> int \<Rightarrow> bg \<Rightarrow> bg" where
  "menu_click item t url_ok now s =
     (if menuClickL (br s) = [] then s
      else if item = ''bb_startRecord'' then snd (on_recorder (startRecord t url_ok now) s)
      else if item = ''bb_stopRecord'' then snd (on_recorder stopRecord s)
      else s)"

fun macro_step :: "mev \<Rightarrow> bg \<Rightarrow> bg" where
  "macro_step (MInitRecord mid) s = snd (InitRecord mid s)"
| "macro_step (MReadyRecord w) s = snd (on_recorder (openRecordWindow w) s)"
| "macro_step (MStartRecord t u now) s = snd (on_recorder (startRecord t u now) s)"
| "macro_step MStopRecord s = snd (on_recorder stopRecord s)"
| "macro_step (MTabActivated t w) s = snd (on_recorder (tab_changed t w) s)"
| "macro_step (MWindowRemoved w) s = window_removed w s"
| "macro_step (MMenuClick item t u now) s = menu_click item t u now s"
| "macro_step (MRecord d now) s =
     (case recordMacro s of None \<Rightarrow> s | Some r \<Rightarrow> s\<lparr>recordMacro := Some (record_action d now r)\<rparr>)"
| "macro_step (MExecute mid) s = snd (execute_start mid s)"
| "macro_step (MExecuteDone mid ok) s = snd (execute_finish mid ok s)"

definition bg_init :: bg where
  "bg_init =
     \<lparr>recordMacro = None, executeMacroPool = [],
      br = \<lparr>openWindows = [], spyRegistered = False, cspRule = False, menus = [],
            winRemovedL = [], tabRemovedL = [], tabActivatedL = [], menuClickL = []\<rparr>,
      macroList = [], macroStore = [], broadcasts = []\<rparr>"

text \<open>The states the worker reaches from its start by any sequence of events.\<close>

inductive macro_reach :: "bg \<Rightarrow> bool" where
  init: "macro_reach bg_init"
| step: "macro_reach s \<Longrightarrow> macro_reach (macro_step e s)"


section \<open>What the lemmas speak of\<close>

text \<open>A recording session is live while it is \<open>ready\<close> or \<open>recording\<close>: it holds the
  browser's recording resources.\<close>

definition session_live :: "bg \<Rightarrow> bool" where
  "session_live s = (case recordMacro s of None \<Rightarrow> False
                     | Some r \<Rightarrow> rstatus r = RReady \<or> rstatus r = RRecording)"

definition resources_ok :: "bg \<Rightarrow> bool" where
  "resources_ok s \<longleftrightarrow>
     spyRegistered (br s) = session_live s \<and> cspRule (br s) = session_live s \<and>
     menus (br s) = (if session_live s then [''bb_startRecord'', ''bb_stopRecord''] else []) \<and>
     menuClickL (br s) = (case recordMacro s of None \<Rightarrow> []
                          | Some r \<Rightarrow> if rstatus r = RReady \<or> rstatus r = RRecording then [macroId r] else [])"

text \<open>A recording is a list of pairs: the pause before an event, then the event.\<close>

fun paired :: "rec_entry list \<Rightarrow> bool" where
  "paired [] = True"
| "paired (Sleep t # Action d # es) = paired es"
| "paired _ = False"

fun sleep_total :: "rec_entry list \<Rightarrow> int" where
  "sleep_total [] = 0"
| "sleep_total (Sleep t # es) = t + sleep_total es"
| "sleep_total (Action d # es) = sleep_total es"

definition rec_ok :: "recorder \<Rightarrow> bool" where
  "rec_ok r \<longleftrightarrow>
     (rstatus r \<noteq> RRecording \<longrightarrow> recTab r = None) \<and>
     (rstatus r = RIdle \<or> rstatus r = RReady \<longrightarrow> recEvents r = [] \<and> recStartTime r = recLastEventTime r) \<and>
     paired (recEvents r) \<and> sleep_total (recEvents r) = recLastEventTime r - recStartTime r"


definition recs_ok :: "bg \<Rightarrow> bool" where
  "recs_ok s = (case recordMacro s of None \<Rightarrow> True | Some r \<Rightarrow> rec_ok r)"

definition window_watched :: "bg \<Rightarrow> bool" where
  "window_watched s =
     (case recordMacro s of None \<Rightarrow> True
      | Some r \<Rightarrow> (case recWindowId r of None \<Rightarrow> True | Some w \<Rightarrow> (macroId r, w) \<in> set (winRemovedL (br s))))"


definition store_ok :: "bg \<Rightarrow> bool" where
  "store_ok s \<longleftrightarrow> list_all (\<lambda>p. paired (snd p)) (macroStore s)"

section \<open>Lemmas on the handlers\<close>

lemma on_recorder_Some:
  "recordMacro s = Some r \<Longrightarrow> on_recorder f s = (None, (snd (f r s))\<lparr>recordMacro := Some (fst (f r s))\<rparr>)"
  by (simp add: on_recorder_def split: prod.split)

lemma on_recorder_None: "recordMacro s = None \<Longrightarrow> on_recorder f s = (Some RecorderUndefined, s)"
  by (simp add: on_recorder_def)

lemmas recorder_op_defs = openRecordWindow_def startRecord_def stopRecord_def changeRecordingTab_def
  tab_changed_def

text \<open>The execution handlers touch only the pool, the \<open>tabs.onActivated\<close> listeners and the
  broadcasts.\<close>

lemma execute_start_parts:
  "recordMacro (snd (execute_start mid s)) = recordMacro s \<and>
   spyRegistered (br (snd (execute_start mid s))) = spyRegistered (br s) \<and>
   cspRule (br (snd (execute_start mid s))) = cspRule (br s) \<and>
   menus (br (snd (execute_start mid s))) = menus (br s) \<and>
   menuClickL (br (snd (execute_start mid s))) = menuClickL (br s) \<and>
   winRemovedL (br (snd (execute_start mid s))) = winRemovedL (br s)"
  by (simp add: execute_start_def startExecute_def Let_def split: option.split)

lemma execute_finish_parts:
  "recordMacro (snd (execute_finish mid ok s)) = recordMacro s \<and>
   spyRegistered (br (snd (execute_finish mid ok s))) = spyRegistered (br s) \<and>
   cspRule (br (snd (execute_finish mid ok s))) = cspRule (br s) \<and>
   menus (br (snd (execute_finish mid ok s))) = menus (br s) \<and>
   menuClickL (br (snd (execute_finish mid ok s))) = menuClickL (br s) \<and>
   winRemovedL (br (snd (execute_finish mid ok s))) = winRemovedL (br s)"
  by (simp add: execute_finish_def split: option.split prod.split exec_status.split)

lemma on_recorder_preserve:
  "(\<And>r. recordMacro s = Some r \<Longrightarrow> P ((snd (f r s))\<lparr>recordMacro := Some (fst (f r s))\<rparr>)) \<Longrightarrow> P s \<Longrightarrow>
   P (snd (on_recorder f s))"
  by (cases "recordMacro s") (simp_all add: on_recorder_Some on_recorder_None)

text \<open>A property of states that each handler and callback keeps is kept by every step.\<close>

lemma macro_step_preserves:
  assumes ready: "\<And>s w. P s \<Longrightarrow> P (snd (on_recorder (openRecordWindow w) s))"
    and start: "\<And>s t u n. P s \<Longrightarrow> P (snd (on_recorder (startRecord t u n) s))"
    and stop: "\<And>s. P s \<Longrightarrow> P (snd (on_recorder stopRecord s))"
    and tab: "\<And>s t w. P s \<Longrightarrow> P (snd (on_recorder (tab_changed t w) s))"
    and init: "\<And>s mid. P s \<Longrightarrow> P (snd (InitRecord mid s))"
    and recd: "\<And>s r d n. P s \<Longrightarrow> recordMacro s = Some r \<Longrightarrow> P (s\<lparr>recordMacro := Some (record_action d n r)\<rparr>)"
    and exec: "\<And>s mid ok. P s \<Longrightarrow> P (snd (execute_start mid s)) \<and> P (snd (execute_finish mid ok s))"
    and "P s"
  shows "P (macro_step e s)"
proof (cases e)
  case (MRecord d n)
  then show ?thesis using recd [OF \<open>P s\<close>] \<open>P s\<close> by (cases "recordMacro s") auto
qed (use assms in \<open>auto simp: window_removed_def menu_click_def\<close>)


lemma paired_snoc [simp]: "paired (es @ [Sleep t, Action d]) = paired es"
  by (induction es rule: paired.induct) auto

lemma sleep_total_append [simp]: "sleep_total (es @ fs) = sleep_total es + sleep_total fs"
  by (induction es rule: sleep_total.induct) auto

lemma resources_ok_step:
  assumes "resources_ok s"
  shows "resources_ok (macro_step e s)"
proof (rule macro_step_preserves)
  show "resources_ok (snd (on_recorder (openRecordWindow w) s))" if "resources_ok s" for s w
    by (rule on_recorder_preserve) (use that in \<open>auto simp: resources_ok_def session_live_def openRecordWindow_def\<close>)
  show "resources_ok (snd (on_recorder (startRecord t u n) s))" if "resources_ok s" for s t u n
    by (rule on_recorder_preserve) (use that in \<open>auto simp: resources_ok_def session_live_def startRecord_def changeRecordingTab_def\<close>)
  show "resources_ok (snd (on_recorder stopRecord s))" if "resources_ok s" for s
    by (rule on_recorder_preserve) (use that in \<open>auto simp: resources_ok_def session_live_def stopRecord_def Let_def\<close>)
  show "resources_ok (snd (on_recorder (tab_changed t w) s))" if "resources_ok s" for s t w
    by (rule on_recorder_preserve) (use that in \<open>auto simp: resources_ok_def session_live_def tab_changed_def changeRecordingTab_def\<close>)
  show "resources_ok (snd (InitRecord mid s))" if "resources_ok s" for s mid
    using that by (auto simp: resources_ok_def session_live_def InitRecord_def new_recorder_def split: option.splits)
  show "resources_ok (s\<lparr>recordMacro := Some (record_action d n r)\<rparr>)" if "resources_ok s" "recordMacro s = Some r" for s r d n
    using that by (auto simp: resources_ok_def session_live_def record_action_def)
  show "resources_ok (snd (execute_start mid s)) \<and> resources_ok (snd (execute_finish mid ok s))" if "resources_ok s" for s mid ok
    using that by (simp add: execute_start_parts execute_finish_parts resources_ok_def session_live_def)
qed (rule assms)

lemma recs_ok_step:
  assumes "recs_ok s"
  shows "recs_ok (macro_step e s)"
proof (rule macro_step_preserves)
  show "recs_ok (snd (on_recorder (openRecordWindow w) s))" if "recs_ok s" for s w
    by (rule on_recorder_preserve) (use that in \<open>auto simp: recs_ok_def rec_ok_def openRecordWindow_def\<close>)
  show "recs_ok (snd (on_recorder (startRecord t u n) s))" if "recs_ok s" for s t u n
    by (rule on_recorder_preserve) (use that in \<open>auto simp: recs_ok_def rec_ok_def startRecord_def changeRecordingTab_def\<close>)
  show "recs_ok (snd (on_recorder stopRecord s))" if "recs_ok s" for s
    by (rule on_recorder_preserve) (use that in \<open>auto simp: recs_ok_def rec_ok_def stopRecord_def Let_def\<close>)
  show "recs_ok (snd (on_recorder (tab_changed t w) s))" if "recs_ok s" for s t w
    by (rule on_recorder_preserve) (use that in \<open>auto simp: recs_ok_def rec_ok_def tab_changed_def changeRecordingTab_def\<close>)
  show "recs_ok (snd (InitRecord mid s))" if "recs_ok s" for s mid
    using that by (auto simp: recs_ok_def rec_ok_def InitRecord_def new_recorder_def split: option.splits)
  show "recs_ok (s\<lparr>recordMacro := Some (record_action d n r)\<rparr>)" if "recs_ok s" "recordMacro s = Some r" for s r d n
    using that by (auto simp: recs_ok_def rec_ok_def record_action_def)
  show "recs_ok (snd (execute_start mid s)) \<and> recs_ok (snd (execute_finish mid ok s))" if "recs_ok s" for s mid ok
    using that by (simp add: execute_start_parts execute_finish_parts recs_ok_def rec_ok_def)
qed (rule assms)

lemma window_watched_step:
  assumes "window_watched s"
  shows "window_watched (macro_step e s)"
proof (rule macro_step_preserves)
  show "window_watched (snd (on_recorder (openRecordWindow w) s))" if "window_watched s" for s w
    by (rule on_recorder_preserve) (use that in \<open>auto simp: window_watched_def openRecordWindow_def split: option.splits\<close>)
  show "window_watched (snd (on_recorder (startRecord t u n) s))" if "window_watched s" for s t u n
    by (rule on_recorder_preserve) (use that in \<open>auto simp: window_watched_def startRecord_def changeRecordingTab_def split: option.splits\<close>)
  show "window_watched (snd (on_recorder stopRecord s))" if "window_watched s" for s
    by (rule on_recorder_preserve) (use that in \<open>auto simp: window_watched_def stopRecord_def Let_def split: option.splits\<close>)
  show "window_watched (snd (on_recorder (tab_changed t w) s))" if "window_watched s" for s t w
    by (rule on_recorder_preserve) (use that in \<open>auto simp: window_watched_def tab_changed_def changeRecordingTab_def split: option.splits\<close>)
  show "window_watched (snd (InitRecord mid s))" if "window_watched s" for s mid
    using that by (auto simp: window_watched_def InitRecord_def new_recorder_def split: option.splits)
  show "window_watched (s\<lparr>recordMacro := Some (record_action d n r)\<rparr>)" if "window_watched s" "recordMacro s = Some r" for s r d n
    using that by (auto simp: window_watched_def record_action_def split: option.splits)
  show "window_watched (snd (execute_start mid s)) \<and> window_watched (snd (execute_finish mid ok s))" if "window_watched s" for s mid ok
    using that by (simp add: execute_start_parts execute_finish_parts window_watched_def split: option.splits)
qed (rule assms)


lemma store_ok_step:
  assumes "recs_ok s \<and> store_ok s"
  shows "recs_ok (macro_step e s) \<and> store_ok (macro_step e s)"
proof (rule macro_step_preserves [where P = "\<lambda>s. recs_ok s \<and> store_ok s"])
  show "recs_ok (snd (on_recorder (openRecordWindow w) s)) \<and> store_ok (snd (on_recorder (openRecordWindow w) s))"
    if "recs_ok s \<and> store_ok s" for s w
    by (rule on_recorder_preserve [where P = "\<lambda>s. recs_ok s \<and> store_ok s"])
       (use that in \<open>auto simp: recs_ok_def rec_ok_def store_ok_def openRecordWindow_def\<close>)
  show "recs_ok (snd (on_recorder (startRecord t u n) s)) \<and> store_ok (snd (on_recorder (startRecord t u n) s))"
    if "recs_ok s \<and> store_ok s" for s t u n
    by (rule on_recorder_preserve [where P = "\<lambda>s. recs_ok s \<and> store_ok s"])
       (use that in \<open>auto simp: recs_ok_def rec_ok_def store_ok_def startRecord_def changeRecordingTab_def\<close>)
  show "recs_ok (snd (on_recorder stopRecord s)) \<and> store_ok (snd (on_recorder stopRecord s))"
    if "recs_ok s \<and> store_ok s" for s
  proof (rule on_recorder_preserve [where P = "\<lambda>s. recs_ok s \<and> store_ok s"])
    fix r assume r: "recordMacro s = Some r"
    then have "paired (recEvents r)" using that by (simp add: recs_ok_def rec_ok_def)
    then have "list_all (\<lambda>p. paired (snd p)) (aupd (macroId r) (recEvents r) (macroStore s))"
      using that set_aupd [of "macroId r" "recEvents r" "macroStore s"] by (auto simp: store_ok_def list_all_iff)
    then show "recs_ok ((snd (stopRecord r s))\<lparr>recordMacro := Some (fst (stopRecord r s))\<rparr>) \<and>
               store_ok ((snd (stopRecord r s))\<lparr>recordMacro := Some (fst (stopRecord r s))\<rparr>)"
      using that r by (auto simp: recs_ok_def rec_ok_def store_ok_def stopRecord_def Let_def)
  qed (use that in simp)
  show "recs_ok (snd (on_recorder (tab_changed t w) s)) \<and> store_ok (snd (on_recorder (tab_changed t w) s))"
    if "recs_ok s \<and> store_ok s" for s t w
    by (rule on_recorder_preserve [where P = "\<lambda>s. recs_ok s \<and> store_ok s"])
       (use that in \<open>auto simp: recs_ok_def rec_ok_def store_ok_def tab_changed_def changeRecordingTab_def\<close>)
  show "recs_ok (snd (InitRecord mid s)) \<and> store_ok (snd (InitRecord mid s))" if "recs_ok s \<and> store_ok s" for s mid
    using that by (auto simp: recs_ok_def rec_ok_def store_ok_def InitRecord_def new_recorder_def split: option.splits)
  show "recs_ok (s\<lparr>recordMacro := Some (record_action d n r)\<rparr>) \<and> store_ok (s\<lparr>recordMacro := Some (record_action d n r)\<rparr>)"
    if "recs_ok s \<and> store_ok s" "recordMacro s = Some r" for s r d n
    using that by (auto simp: recs_ok_def rec_ok_def store_ok_def record_action_def)
  show "(recs_ok (snd (execute_start mid s)) \<and> store_ok (snd (execute_start mid s))) \<and>
        recs_ok (snd (execute_finish mid ok s)) \<and> store_ok (snd (execute_finish mid ok s))"
    if "recs_ok s \<and> store_ok s" for s mid ok
    using that by (auto simp: recs_ok_def store_ok_def execute_start_parts execute_finish_parts
                              execute_start_def startExecute_def execute_finish_def Let_def
                        split: option.splits prod.splits exec_status.splits)
qed (rule assms)

lemma pool_locked_step:
  assumes "map_of (executeMacroPool s) mid = Some \<lparr>estatus = EExecuting, emacro = mid, execMacro = None\<rparr>"
  shows "map_of (executeMacroPool (macro_step e s)) mid = Some \<lparr>estatus = EExecuting, emacro = mid, execMacro = None\<rparr>"
proof (rule macro_step_preserves [where P = "\<lambda>s. map_of (executeMacroPool s) mid = Some \<lparr>estatus = EExecuting, emacro = mid, execMacro = None\<rparr>"])
  show "map_of (executeMacroPool (snd (execute_start mid' s))) mid = Some \<lparr>estatus = EExecuting, emacro = mid, execMacro = None\<rparr> \<and>
        map_of (executeMacroPool (snd (execute_finish mid' ok s))) mid = Some \<lparr>estatus = EExecuting, emacro = mid, execMacro = None\<rparr>"
    if "map_of (executeMacroPool s) mid = Some \<lparr>estatus = EExecuting, emacro = mid, execMacro = None\<rparr>" for s mid' ok
    using that by (auto simp: execute_start_def startExecute_def execute_finish_def Let_def
                        split: option.splits prod.splits exec_status.splits)
qed (auto simp: on_recorder_def InitRecord_def recorder_op_defs Let_def split: option.splits prod.splits intro: assms)

lemma pool_locked_fold:
  "map_of (executeMacroPool s) mid = Some \<lparr>estatus = EExecuting, emacro = mid, execMacro = None\<rparr> \<Longrightarrow>
   map_of (executeMacroPool (fold macro_step evs s)) mid = Some \<lparr>estatus = EExecuting, emacro = mid, execMacro = None\<rparr>"
  by (induction evs arbitrary: s) (simp_all add: pool_locked_step)


section \<open>Properties of macro recording and replay\<close>

text \<open>C24. In every state the worker reaches, the browser holds the recording resources
  (the \<open>page_spy\<close> user script, the CSP-removing rule, the two menu items and their click
  listener) exactly while a recording session is \<open>ready\<close> or \<open>recording\<close>: opening a
  session acquires all of them and stopping it releases all of them.\<close>

theorem macro_reach_resources: "macro_reach s \<Longrightarrow> resources_ok s"
proof (induction rule: macro_reach.induct)
  case init
  then show ?case by (simp add: resources_ok_def session_live_def bg_init_def)
next
  case (step s e)
  show ?case by (rule resources_ok_step [OF step.IH])
qed

theorem macro_reach_resources_witness:
  "resources_ok (macro_step (MReadyRecord 7) (macro_step (MInitRecord ''m1'') bg_init)) \<and>
   spyRegistered (br (macro_step (MReadyRecord 7) (macro_step (MInitRecord ''m1'') bg_init)))"
proof -
  have "macro_reach (macro_step (MReadyRecord 7) (macro_step (MInitRecord ''m1'') bg_init))"
    by (intro macro_reach.step macro_reach.init)
  then show ?thesis using macro_reach_resources
    by (simp add: bg_init_def InitRecord_def new_recorder_def on_recorder_def openRecordWindow_def)
qed

text \<open>C25. The \<open>windows.onRemoved\<close> listener a session adds is never removed:
  \<open>stopRecord\<close> removes \<open>onRecordTabRemoved\<close> from \<open>tabs.onRemoved\<close>, where it was never
  added. In every reachable state the current session's window listener is registered, also
  after the session has finished, so every recording leaves one listener behind.\<close>

theorem window_listener_never_removed:
  assumes "macro_reach s" and "recordMacro s = Some r" and "recWindowId r = Some w"
  shows "(macroId r, w) \<in> set (winRemovedL (br s))"
proof -
  have "window_watched s" using assms(1)
  proof (induction rule: macro_reach.induct)
    case init
    then show ?case by (simp add: window_watched_def bg_init_def)
  next
    case (step s e)
    show ?case by (rule window_watched_step [OF step.IH])
  qed
  then show ?thesis using assms(2,3) by (simp add: window_watched_def)
qed

theorem window_listener_never_removed_witness:
  "recordMacro (macro_step MStopRecord (macro_step (MReadyRecord 7) (macro_step (MInitRecord ''m1'') bg_init)))
     = Some \<lparr>rstatus = RFinished, macroId = ''m1'', recEvents = [], recStartTime = 0, recLastEventTime = 0,
             recWindowId = Some 7, recTab = None\<rparr> \<and>
   (''m1'', 7) \<in> set (winRemovedL (br (macro_step MStopRecord (macro_step (MReadyRecord 7) (macro_step (MInitRecord ''m1'') bg_init))))) \<and>
   menuClickL (br (macro_step MStopRecord (macro_step (MReadyRecord 7) (macro_step (MInitRecord ''m1'') bg_init)))) = []"
proof -
  let ?s = "macro_step MStopRecord (macro_step (MReadyRecord 7) (macro_step (MInitRecord ''m1'') bg_init))"
  have reach: "macro_reach ?s" by (intro macro_reach.step macro_reach.init)
  have r: "recordMacro ?s = Some \<lparr>rstatus = RFinished, macroId = ''m1'', recEvents = [], recStartTime = 0,
             recLastEventTime = 0, recWindowId = Some 7, recTab = None\<rparr>"
    by (simp add: bg_init_def InitRecord_def new_recorder_def on_recorder_def openRecordWindow_def
                  stopRecord_def Let_def)
  have "menuClickL (br ?s) = []"
    by (simp add: bg_init_def InitRecord_def new_recorder_def on_recorder_def openRecordWindow_def
                  stopRecord_def Let_def)
  then show ?thesis using window_listener_never_removed [OF reach r] r by simp
qed

text \<open>C26. Replaying a macro with nothing stored under \<open>Macro.<id>\<close> (a deleted macro, as a
  compiled \<open>MacroBlock\<close> may still name) fails with the \<open>TypeError\<close> of
  \<open>this.execMacro.length\<close>, and its pool entry is never deleted: whatever happens next, the
  macro counts as executing and every later \<open>Macro.Execute\<close> of it is refused.\<close>

theorem missing_macro_locks_pool:
  assumes "map_of (macroStore s) mid = None" and "map_of (executeMacroPool s) mid = None"
  shows "fst (execute_start mid s) = Some MacroMissing \<and>
         (\<forall>evs. IsExecuting mid (fold macro_step evs (snd (execute_start mid s))) \<and>
                fst (execute_start mid (fold macro_step evs (snd (execute_start mid s)))) = Some MacroRunning)"
proof -
  have locked: "map_of (executeMacroPool (snd (execute_start mid s))) mid =
                  Some \<lparr>estatus = EExecuting, emacro = mid, execMacro = None\<rparr>"
    using assms by (simp add: execute_start_def startExecute_def)
  have "fst (execute_start mid s) = Some MacroMissing"
    using assms by (simp add: execute_start_def startExecute_def)
  then show ?thesis using pool_locked_fold [OF locked]
    by (simp add: IsExecuting_def execute_start_def)
qed

theorem missing_macro_locks_pool_witness:
  "fst (execute_start ''gone'' bg_init) = Some MacroMissing \<and>
   IsExecuting ''gone'' (fold macro_step [MExecuteDone ''gone'' (\<lambda>_. True), MInitRecord ''m1'']
                           (snd (execute_start ''gone'' bg_init)))"
proof -
  have "map_of (macroStore bg_init) ''gone'' = None" "map_of (executeMacroPool bg_init) ''gone'' = None"
    by (simp_all add: bg_init_def)
  then show ?thesis using missing_macro_locks_pool [of bg_init "''gone''"] by blast
qed

text \<open>C27. \<open>startExecute\<close> replays the events in order and stops at the first that fails:
  it runs the longest prefix of succeeding events, then the failing event if there is one,
  and nothing after it.\<close>

theorem exec_loop_prefix:
  "exec_loop ok i evs =
     (let k = length (takeWhile (\<lambda>(j, e). executeEvent ok j e) (zip [i..<i + length evs] evs))
      in map (\<lambda>j. (j, True)) [i..<i + k] @ (if k < length evs then [(i + k, False)] else []))"
proof (induction evs arbitrary: i)
  case (Cons e es)
  have "[i..<i + length (e # es)] = i # [Suc i..<Suc i + length es]"
    by (simp add: upt_conv_Cons del: upt_Suc)
  then have z: "zip [i..<i + length (e # es)] (e # es) = (i, e) # zip [Suc i..<Suc i + length es] es"
    by simp
  show ?case
  proof (cases "executeEvent ok i e")
    case True
    then show ?thesis unfolding z using Cons [of "Suc i"] by (simp add: Let_def upt_conv_Cons del: upt_Suc)
  next
    case False
    then show ?thesis unfolding z by simp
  qed
qed simp

text \<open>C28. Every macro stored under \<open>Macro.<id>\<close> in a reachable state is a list of pairs,
  the pause since the previous event followed by the event; while a session records, its
  pauses add up to the time from the start of the recording to its last event.\<close>

theorem stored_macros_paired:
  assumes "macro_reach s"
  shows "(\<forall>p \<in> set (macroStore s). paired (snd p)) \<and>
         (\<forall>r. recordMacro s = Some r \<longrightarrow> sleep_total (recEvents r) = recLastEventTime r - recStartTime r)"
proof -
  have "recs_ok s \<and> store_ok s" using assms
  proof (induction rule: macro_reach.induct)
    case init
    then show ?case by (simp add: recs_ok_def store_ok_def bg_init_def)
  next
    case (step s e)
    show ?case by (rule store_ok_step [OF step.IH])
  qed
  then show ?thesis by (auto simp: recs_ok_def rec_ok_def store_ok_def list_all_iff)
qed

theorem stored_macros_paired_witness:
  "macroStore (macro_step MStopRecord (macro_step (MRecord ''click'' 5) (macro_step (MStartRecord 3 True 2)
     (macro_step (MReadyRecord 7) (macro_step (MInitRecord ''m1'') bg_init))))) = [(''m1'', [Sleep 3, Action ''click''])] \<and>
   paired [Sleep 3, Action ''click'']"
proof -
  let ?s = "macro_step MStopRecord (macro_step (MRecord ''click'' 5) (macro_step (MStartRecord 3 True 2)
     (macro_step (MReadyRecord 7) (macro_step (MInitRecord ''m1'') bg_init))))"
  have reach: "macro_reach ?s" by (intro macro_reach.step macro_reach.init)
  have st: "macroStore ?s = [(''m1'', [Sleep 3, Action ''click''])]"
    by (simp add: bg_init_def InitRecord_def new_recorder_def on_recorder_def openRecordWindow_def
                  startRecord_def changeRecordingTab_def record_action_def stopRecord_def Let_def)
  show ?thesis using stored_macros_paired [OF reach] st by simp
qed

end
