(* ===== verification/Frames.thy ===== *)
theory Frames
  imports Prelude
begin

text \<open>
  Cross-frame messaging, \<open>IframeDataPack\<close> and \<open>IframeMessage\<close> of
  \<open>src/src/modules/messages.ts\<close>. The frames of a tab form a tree: each frame knows its parent
  window (none for the top frame) and the \<open>iframe\<close> elements of its document, named by the
  CSS selector path \<open>getHighQualityCssSelector\<close> gives them and \<open>deepQuerySelector\<close> finds
  them by. A pack travels up with a positive \<open>vector\<close>, each frame it enters prepending the
  selector of the \<open>iframe\<close> it came from (\<open>goUpstairs\<close>), and down with a negative one,
  each frame dropping the first selector (\<open>goDownstairs\<close>). Each frame keeps its
  \<open>_pendingMessages\<close>; a \<open>#resolve\<close> or \<open>#reject\<close> pack settles the pending entry with its
  id. \<open>window.postMessage\<close> is an explicit FIFO queue of packs in flight. The
  \<open>MutationObserver\<close> handlers (\<open>iframe\<close> added, reloaded, removed) and the router
  changes are steps of the inductive \<open>net_reach\<close>; the entries the code makes keep the
  shape \<open>keys_ok\<close>, under which removing an \<open>iframe\<close> ends in a \<open>TypeError\<close> and rejects
  nothing. The AES layer
  (\<open>encrypt\<close>/\<open>decrypt\<close>) only wraps \<open>data\<close> in transit and is not modelled; the data a pack
  carries is opaque (\<open>pval\<close>).
\<close>

section \<open>Packs\<close>

type_synonym selector = "string list"
type_synonym fid = nat

text \<open>The values packs carry: opaque data, \<open>undefined\<close>, and the three texts the code
  puts in a \<open>#reject\<close> (\<open>Iframe '...' not found.\<close>, \<open>... reloaded.\<close>, \<open>... removed.\<close>),
  each naming \<open>path[0]\<close> (\<open>None\<close>: \<open>undefined\<close>, for an empty path).\<close>

datatype pval = PData string | PUndef | PNotFound selector | PReloaded "selector option"
  | PRemoved "selector option"

record pack =
  sign :: string
  pid :: nat
  ptype :: string
  pdata :: pval
  ppath :: "selector list"
  vector :: int

text \<open>\<open>new IframeDataPack({type, data, path = [], vector = 2147483647})\<close>; \<open>id\<close> is the
  fresh \<open>uniqueId()\<close>.\<close>

definition vector_max :: int where
  "vector_max = 2147483647"

definition mk_pack :: "nat \<Rightarrow> string \<Rightarrow> pval \<Rightarrow> selector list \<Rightarrow> int \<Rightarrow> pack" where
  "mk_pack i ty d path v = \<lparr>sign = ''bowerbird'', pid = i, ptype = ty, pdata = d, ppath = path, vector = v\<rparr>"

definition goUpstairs :: "selector \<Rightarrow> pack \<Rightarrow> pack" where
  "goUpstairs s p = p\<lparr>ppath := s # ppath p, vector := vector p - 1\<rparr>"

text \<open>\<open>path.shift()\<close> on an empty path leaves it empty.\<close>

definition goDownstairs :: "pack \<Rightarrow> pack" where
  "goDownstairs p = p\<lparr>ppath := tl (ppath p), vector := vector p + 1\<rparr>"

text \<open>\<open>verify()\<close>: the field types hold by construction here, so only the signature is
  checked.\<close>

definition verify :: "pack \<Rightarrow> bool" where
  "verify p \<longleftrightarrow> sign p = ''bowerbird''"

definition is_control :: "string \<Rightarrow> bool" where
  "is_control ty \<longleftrightarrow> take 1 ty = ''#''"

definition is_answer :: "string \<Rightarrow> bool" where
  "is_answer ty \<longleftrightarrow> ty = ''#resolve'' \<or> ty = ''#reject''"

definition path0 :: "pack \<Rightarrow> selector option" where
  "path0 p = (case ppath p of [] \<Rightarrow> None | s # _ \<Rightarrow> Some s)"

section \<open>Frames and the network\<close>

text \<open>A pending message: its \<open>id\<close>, its \<open>target\<close> (the parent window or the frame's own
  window, \<open>TWindow\<close>, or the \<open>iframe\<close> element whose content window is the given frame,
  \<open>TIframe\<close>), the key the pack is stored under (\<open>dataPack\<close> by \<open>postParentMessage\<close>,
  \<open>data\<close> by \<open>postChildMessage\<close> and \<open>postSelfMessage\<close>) and the pack.\<close>

datatype ptarget = TWindow fid | TIframe fid

datatype pkey = KDataPack | KData

datatype pentry = PEntry (pe_id: nat) (pe_target: ptarget) (pe_key: pkey) (pe_pack: pack)

text \<open>A frame's \<open>IframeMessage\<close>: its parent window, the \<open>iframe\<close> elements of its document
  by selector (\<open>_iframeMap\<close> and what \<open>deepQuerySelector\<close> finds), \<open>_pendingMessages\<close>,
  the promises settled so far (id, \<open>resolve\<close> or \<open>reject\<close>, value), \<open>_router\<close> (the value
  each route's callback returns), and the calls of the router so far (type, path and data of
  the pack each callback was given).\<close>

record frame =
  fparent :: "fid option"
  felems :: "(selector \<times> fid) list"
  pending :: "pentry list"
  settled :: "(nat \<times> string \<times> pval) list"
  routes :: "(string \<times> pval) list"
  calls :: "(string \<times> selector list \<times> pval) list"

record net =
  frames :: "frame list"
  inflight :: "(fid \<times> fid \<times> pack) list"

definition upd_frame :: "fid \<Rightarrow> (frame \<Rightarrow> frame) \<Rightarrow> net \<Rightarrow> net" where
  "upd_frame f g n = n\<lparr>frames := (frames n)[f := g (frames n ! f)]\<rparr>"

text \<open>\<open>Selectors.getHighQualityCssSelector(this._iframeMap.get(event.source))\<close>, modelled
  from its contract, and \<open>Selectors.deepQuerySelector(document, selector)\<close>: the element the
  selector path finds, descending through shadow roots, here the \<open>iframe\<close> of the document
  stored under that path.\<close>

definition sel_of :: "frame \<Rightarrow> fid \<Rightarrow> selector option" where
  "sel_of fr src = map_option fst (find (\<lambda>e. snd e = src) (felems fr))"

definition deepQuerySelector :: "frame \<Rightarrow> selector \<Rightarrow> fid option" where
  "deepQuerySelector fr s = map_of (felems fr) s"

text \<open>\<open>_pendingMessages.findIndex(m => m.id === dataPack.id)\<close> and \<open>splice(index, 1)\<close>:
  the first entry with the id leaves the list.\<close>

fun pdel :: "nat \<Rightarrow> pentry list \<Rightarrow> pentry list" where
  "pdel i [] = []"
| "pdel i (e # es) = (if pe_id e = i then es else e # pdel i es)"

text \<open>The tail shared by \<open>postParentMessage\<close>, \<open>postChildMessage\<close> and
  \<open>postSelfMessage\<close>: post the pack to window \<open>g\<close>; a request records a pending entry with
  the caller's target and key; an answer settles the sender's own pending entry with its id,
  if any.\<close>

definition settle :: "fid \<Rightarrow> pack \<Rightarrow> net \<Rightarrow> net" where
  "settle f p n =
     (if pid p \<in> pe_id ` set (pending (frames n ! f))
      then upd_frame f (\<lambda>fr. fr\<lparr>pending := pdel (pid p) (pending fr),
                                settled := settled fr @ [(pid p, drop 1 (ptype p), pdata p)]\<rparr>) n
      else n)"

definition post :: "fid \<Rightarrow> fid \<Rightarrow> ptarget \<Rightarrow> pkey \<Rightarrow> pack \<Rightarrow> net \<Rightarrow> net" where
  "post f g tg key p n =
     (let n1 = n\<lparr>inflight := inflight n @ [(g, f, p)]\<rparr> in
      if \<not> is_control (ptype p) then upd_frame f (\<lambda>fr. fr\<lparr>pending := pending fr @ [PEntry (pid p) tg key p]\<rparr>) n1
      else if is_answer (ptype p) then settle f p n1
      else n1)"

definition postParentMessage :: "fid \<Rightarrow> pack \<Rightarrow> net \<Rightarrow> net" where
  "postParentMessage f p n =
     (case fparent (frames n ! f) of None \<Rightarrow> n | Some g \<Rightarrow> post f g (TWindow g) KDataPack p n)"

definition postChildMessage :: "fid \<Rightarrow> fid \<Rightarrow> pack \<Rightarrow> net \<Rightarrow> net" where
  "postChildMessage f c p n = post f c (TIframe c) KData p n"

definition postSelfMessage :: "fid \<Rightarrow> pack \<Rightarrow> net \<Rightarrow> net" where
  "postSelfMessage f p n = post f f (TWindow f) KData p n"

text \<open>\<open>send(dataPack)\<close>: up while the vector is positive and there is a parent, down while
  it is negative and the path is not empty; a missing \<open>iframe\<close> turns the pack into a
  \<open>#reject\<close> with vector 0, which the recursive call posts to the frame itself.\<close>

function send :: "fid \<Rightarrow> pack \<Rightarrow> net \<Rightarrow> net" where
  "send f p n =
     (if 0 < vector p \<and> fparent (frames n ! f) \<noteq> None then postParentMessage f p n
      else if vector p < 0 \<and> ppath p \<noteq> [] then
        (case deepQuerySelector (frames n ! f) (hd (ppath p)) of
           Some c \<Rightarrow> postChildMessage f c p n
         | None \<Rightarrow> send f (p\<lparr>ptype := ''#reject'', vector := 0, pdata := PNotFound (hd (ppath p))\<rparr>) n)
      else postSelfMessage f p n)"
  by pat_completeness auto
termination
  by (relation "measure (\<lambda>(f, p, n). if vector p < 0 then 1 else 0)") auto

text \<open>The \<open>message\<close> listener of frame \<open>f\<close> for a pack posted by \<open>src\<close>: verify; a rising
  pack records the \<open>iframe\<close> it came through, a falling one drops a step; then forward it
  up, forward it down (a missing \<open>iframe\<close> answers \<open>#reject\<close> with the full vector), or
  handle it here: a request is answered \<open>#resolve\<close> with the route's value and the vector
  reversed, an answer settles the pending entry.\<close>

definition arrive :: "fid \<Rightarrow> pack \<Rightarrow> net \<Rightarrow> net" where
  "arrive f p n =
     (if 0 < vector p \<and> fparent (frames n ! f) \<noteq> None then postParentMessage f p n
      else if vector p < 0 \<and> ppath p \<noteq> [] then
        (case deepQuerySelector (frames n ! f) (hd (ppath p)) of
           Some c \<Rightarrow> postChildMessage f c p n
         | None \<Rightarrow> send f (p\<lparr>ptype := ''#reject'', vector := vector_max, pdata := PNotFound (hd (ppath p))\<rparr>) n)
      else if \<not> is_control (ptype p) then
        send f (p\<lparr>ptype := ''#resolve'', vector := - vector p,
                  pdata := (case map_of (routes (frames n ! f)) (ptype p) of Some v \<Rightarrow> v | None \<Rightarrow> PUndef)\<rparr>)
             (upd_frame f (\<lambda>fr. fr\<lparr>calls := calls fr @ [(ptype p, ppath p, pdata p)]\<rparr>) n)
      else if is_answer (ptype p) then settle f p n
      else n)"

definition listener :: "fid \<Rightarrow> fid \<Rightarrow> pack \<Rightarrow> net \<Rightarrow> net" where
  "listener f src p n =
     (if \<not> verify p then n
      else if 0 < vector p then
        (case sel_of (frames n ! f) src of
           None \<Rightarrow> n
         | Some s \<Rightarrow> arrive f (goUpstairs s p) n)
      else if vector p < 0 then arrive f (goDownstairs p) n
      else arrive f p n)"

text \<open>One delivery: the oldest pack in flight reaches its target window.\<close>

definition deliver :: "net \<Rightarrow> net" where
  "deliver n = (case inflight n of [] \<Rightarrow> n | (g, f, p) # q \<Rightarrow> listener g f p (n\<lparr>inflight := q\<rparr>))"

text \<open>The \<open>forEach\<close> over \<open>_pendingMessages\<close> shared by the \<open>iframe\<close>'s \<open>load\<close>
  listener and \<open>handleRemoveNodes\<close>, for the \<open>iframe\<close> whose content window is \<open>c\<close>:
  index \<open>i\<close> of the list as it is now, \<open>r\<close> indices left of the length it had when the
  loop began (an index the list no longer has is skipped). An entry aimed at the \<open>iframe\<close>
  has its pack read through \<open>pendingMessage.dataPack\<close>: under the key \<open>data\<close> that is
  \<open>undefined\<close>, and setting its \<open>type\<close> throws a \<open>TypeError\<close>, which ends the loop
  (\<open>Inl\<close>, with the state reached); under \<open>dataPack\<close> the pack becomes a \<open>#reject\<close> with
  the full vector and the reason \<open>why\<close> and is sent.\<close>

fun reject_loop :: "(selector option \<Rightarrow> pval) \<Rightarrow> fid \<Rightarrow> fid \<Rightarrow> nat \<Rightarrow> nat \<Rightarrow> net \<Rightarrow> net + net" where
  "reject_loop why f c i 0 n = Inr n"
| "reject_loop why f c i (Suc r) n =
     (if i < length (pending (frames n ! f)) \<and> pe_target (pending (frames n ! f) ! i) = TIframe c then
        (case pe_key (pending (frames n ! f) ! i) of
           KData \<Rightarrow> Inl n
         | KDataPack \<Rightarrow>
             reject_loop why f c (Suc i) r
               (send f ((pe_pack (pending (frames n ! f) ! i))\<lparr>ptype := ''#reject'', vector := vector_max,
                          pdata := why (path0 (pe_pack (pending (frames n ! f) ! i)))\<rparr>) n))
      else reject_loop why f c (Suc i) r n)"

text \<open>\<open>handleRemoveNodes\<close> for the \<open>iframe\<close> at selector \<open>s\<close> of frame \<open>f\<close>: it leaves
  \<open>_iframeMap\<close> and the document, then the pending entries aimed at it are visited by
  \<open>reject_loop\<close> with the reason \<open>removed\<close>. A selector that names no \<open>iframe\<close> of the
  document changes nothing.\<close>

definition iframe_removed :: "fid \<Rightarrow> selector \<Rightarrow> net \<Rightarrow> net + net" where
  "iframe_removed f s n =
     (case deepQuerySelector (frames n ! f) s of
        None \<Rightarrow> Inr n
      | Some c \<Rightarrow>
          (let n1 = upd_frame f (\<lambda>fr. fr\<lparr>felems := filter (\<lambda>e. fst e \<noteq> s) (felems fr)\<rparr>) n in
           reject_loop PRemoved f c 0 (length (pending (frames n1 ! f))) n1))"

text \<open>The \<open>load\<close> listener \<open>handleAddNodes\<close> installs on the \<open>iframe\<close> at selector \<open>s\<close>
  of frame \<open>f\<close>, when that \<open>iframe\<close> reloads: \<open>reject_loop\<close> with the reason \<open>reloaded\<close>.\<close>

definition iframe_loaded :: "fid \<Rightarrow> selector \<Rightarrow> net \<Rightarrow> net + net" where
  "iframe_loaded f s n =
     (case deepQuerySelector (frames n ! f) s of
        None \<Rightarrow> Inr n
      | Some c \<Rightarrow> reject_loop PReloaded f c 0 (length (pending (frames n ! f))) n)"

text \<open>A \<open>MutationObserver\<close> callback or event listener that throws leaves the state it
  reached; the exception only ends that callback.\<close>

definition after_callback :: "net + net \<Rightarrow> net" where
  "after_callback r = (case r of Inl n \<Rightarrow> n | Inr n \<Rightarrow> n)"

text \<open>\<open>handleAddNodes\<close> for an \<open>iframe\<close> inserted at selector \<open>s\<close> with window \<open>c\<close>:
  \<open>_iframeMap.set(node.contentWindow, node)\<close>.\<close>

definition iframe_added :: "fid \<Rightarrow> selector \<Rightarrow> fid \<Rightarrow> net \<Rightarrow> net" where
  "iframe_added f s c n = upd_frame f (\<lambda>fr. fr\<lparr>felems := aupd s c (felems fr)\<rparr>) n"

text \<open>\<open>setRouter(type, callback)\<close> and \<open>delRouter(type)\<close>.\<close>

definition setRouter :: "fid \<Rightarrow> string \<Rightarrow> pval \<Rightarrow> net \<Rightarrow> net" where
  "setRouter f ty v n = upd_frame f (\<lambda>fr. fr\<lparr>routes := aupd ty v (routes fr)\<rparr>) n"

definition delRouter :: "fid \<Rightarrow> string \<Rightarrow> net \<Rightarrow> net" where
  "delRouter f ty n = upd_frame f (\<lambda>fr. fr\<lparr>routes := adel ty (routes fr)\<rparr>) n"

text \<open>A frame's client call \<open>iframeMessage.send(new IframeDataPack(...))\<close>.\<close>

definition request :: "fid \<Rightarrow> nat \<Rightarrow> string \<Rightarrow> pval \<Rightarrow> selector list \<Rightarrow> int \<Rightarrow> net \<Rightarrow> net" where
  "request f i ty d path v n = send f (mk_pack i ty d path v) n"

definition empty_frame :: "fid option \<Rightarrow> (selector \<times> fid) list \<Rightarrow> (string \<times> pval) list \<Rightarrow> frame" where
  "empty_frame par els rs = \<lparr>fparent = par, felems = els, pending = [], settled = [], routes = rs, calls = []\<rparr>"

fun deliver_n :: "nat \<Rightarrow> net \<Rightarrow> net" where
  "deliver_n 0 n = n"
| "deliver_n (Suc k) n = deliver_n k (deliver n)"


text \<open>The networks the code can reach: from frames with nothing pending and nothing in
  flight, by deliveries, client requests, \<open>iframe\<close> insertions, reloads and removals, and
  router changes.\<close>

inductive net_reach :: "net \<Rightarrow> bool" where
  init: "inflight n = [] \<Longrightarrow> list_all (\<lambda>fr. pending fr = []) (frames n) \<Longrightarrow> net_reach n"
| deliver: "net_reach n \<Longrightarrow> net_reach (deliver n)"
| request: "net_reach n \<Longrightarrow> net_reach (request f i ty d path v n)"
| added: "net_reach n \<Longrightarrow> net_reach (iframe_added f s c n)"
| loaded: "net_reach n \<Longrightarrow> net_reach (after_callback (iframe_loaded f s n))"
| removed: "net_reach n \<Longrightarrow> net_reach (after_callback (iframe_removed f s n))"
| set_router: "net_reach n \<Longrightarrow> net_reach (setRouter f ty v n)"
| del_router: "net_reach n \<Longrightarrow> net_reach (delRouter f ty n)"

text \<open>The shape of the pending entries the code makes: one aimed at an \<open>iframe\<close> element
  holds its pack under \<open>data\<close>.\<close>

definition entry_ok :: "pentry \<Rightarrow> bool" where
  "entry_ok e \<longleftrightarrow> (case pe_target e of TIframe _ \<Rightarrow> pe_key e = KData | TWindow _ \<Rightarrow> True)"

definition keys_ok :: "net \<Rightarrow> bool" where
  "keys_ok n \<longleftrightarrow> list_all (\<lambda>fr. list_all entry_ok (pending fr)) (frames n)"

text \<open>A tab of three frames: the top frame 0 holds the \<open>iframe\<close> \<open>#f\<close> (frame 1), which holds
  \<open>#g\<close> (frame 2); the top frame routes \<open>record\<close>, frame 2 routes \<open>execute\<close>.\<close>

definition demo_tab :: net where
  "demo_tab =
     \<lparr>frames = [empty_frame None [([''#f''], 1)] [(''record'', PData ''saved'')],
                empty_frame (Some 0) [([''#g''], 2)] [],
                empty_frame (Some 1) [] [(''execute'', PData ''ok'')]],
      inflight = []\<rparr>"


section \<open>Lemmas on packs and hops\<close>

lemma goUpstairs_fields [simp]:
  "ppath (goUpstairs s p) = s # ppath p" "vector (goUpstairs s p) = vector p - 1"
  "ptype (goUpstairs s p) = ptype p" "pid (goUpstairs s p) = pid p" "sign (goUpstairs s p) = sign p"
  by (simp_all add: goUpstairs_def)

lemma goDownstairs_fields [simp]:
  "ppath (goDownstairs p) = tl (ppath p)" "vector (goDownstairs p) = vector p + 1"
  "ptype (goDownstairs p) = ptype p" "pid (goDownstairs p) = pid p" "sign (goDownstairs p) = sign p"
  by (simp_all add: goDownstairs_def)

lemma fold_goUpstairs:
  "ppath (fold goUpstairs sels p) = rev sels @ ppath p \<and>
   vector (fold goUpstairs sels p) = vector p - int (length sels) \<and>
   ptype (fold goUpstairs sels p) = ptype p"
  by (induction sels arbitrary: p) auto

lemma goDownstairs_pow:
  "ppath ((goDownstairs ^^ j) p) = drop j (ppath p) \<and> vector ((goDownstairs ^^ j) p) = vector p + int j"
  by (induction j) (auto simp: drop_Suc tl_drop)

lemma deliver_n_idle: "inflight n = [] \<Longrightarrow> deliver_n k n = n"
  by (induction k) (simp_all add: deliver_def)

lemma nth_upd_frame_other:
  "g \<noteq> f \<Longrightarrow> frames (upd_frame f h n) ! g = frames n ! g"
  by (simp add: upd_frame_def)

declare send.simps [simp del]

lemma after_callback_simps [simp]: "after_callback (Inl n) = n" "after_callback (Inr n) = n"
  by (simp_all add: after_callback_def)

lemma set_pdel: "set (pdel i es) \<subseteq> set es"
  by (induction es) auto

lemma map_frames_upd_frame:
  "(\<And>fr. q (h fr) = q fr) \<Longrightarrow> map q (frames (upd_frame f h n)) = map q (frames n)"
  by (cases "f < length (frames n)")
     (auto simp: upd_frame_def list_eq_iff_nth_eq nth_list_update list_update_beyond not_less)

lemma inflight_upd_frame [simp]: "inflight (upd_frame f h n) = inflight n"
  by (simp add: upd_frame_def)

lemma net_reach_deliver_n: "net_reach n \<Longrightarrow> net_reach (deliver_n k n)"
  by (induction k arbitrary: n) (simp_all add: net_reach.deliver)

subsection \<open>The shape of pending entries\<close>

lemma keys_ok_nth: "keys_ok n \<Longrightarrow> f < length (frames n) \<Longrightarrow> list_all entry_ok (pending (frames n ! f))"
  by (simp add: keys_ok_def list_all_length)

lemma keys_ok_upd_frame:
  assumes "keys_ok n" and "f < length (frames n) \<Longrightarrow> list_all entry_ok (pending (h (frames n ! f)))"
  shows "keys_ok (upd_frame f h n)"
proof (cases "f < length (frames n)")
  case True
  then show ?thesis using assms unfolding keys_ok_def upd_frame_def
    by (auto simp: list_all_iff dest!: set_update_subset_insert [THEN subsetD])
qed (use assms in \<open>simp add: keys_ok_def upd_frame_def not_less list_update_beyond\<close>)

lemma keys_ok_upd_same: "(\<And>fr. pending (h fr) = pending fr) \<Longrightarrow> keys_ok n \<Longrightarrow> keys_ok (upd_frame f h n)"
  by (rule keys_ok_upd_frame) (simp_all add: keys_ok_nth)

lemma keys_ok_inflight [simp]: "keys_ok (n\<lparr>inflight := q\<rparr>) = keys_ok n"
  by (simp add: keys_ok_def)

lemma keys_ok_settle:
  assumes "keys_ok n" shows "keys_ok (settle f p n)"
proof -
  have "list_all entry_ok (pdel i (pending (frames n ! f)))" if "f < length (frames n)" for i
    using keys_ok_nth [OF assms that] set_pdel by (fastforce simp: list_all_iff)
  then show ?thesis unfolding settle_def using assms by (auto intro!: keys_ok_upd_frame)
qed

lemma keys_ok_post: "keys_ok n \<Longrightarrow> entry_ok (PEntry (pid p) tg key p) \<Longrightarrow> keys_ok (post f g tg key p n)"
  unfolding post_def Let_def
  by (auto intro!: keys_ok_upd_frame keys_ok_settle dest: keys_ok_nth)

lemma keys_ok_send: "keys_ok n \<Longrightarrow> keys_ok (send f p n)"
proof (induction f p n rule: send.induct)
  case (1 f p n)
  show ?case
    by (subst send.simps)
       (auto simp: postParentMessage_def postChildMessage_def postSelfMessage_def entry_ok_def
             intro!: keys_ok_post 1 split: option.split)
qed

lemma keys_ok_arrive: "keys_ok n \<Longrightarrow> keys_ok (arrive f p n)"
  unfolding arrive_def postParentMessage_def postChildMessage_def
  by (auto intro!: keys_ok_post keys_ok_send keys_ok_settle keys_ok_upd_same simp: entry_ok_def split: option.split)

lemma keys_ok_deliver: "keys_ok n \<Longrightarrow> keys_ok (deliver n)"
  unfolding deliver_def listener_def
  by (auto intro!: keys_ok_arrive split: list.split option.split)

lemma keys_ok_reject_loop: "keys_ok n \<Longrightarrow> keys_ok (after_callback (reject_loop why f c i r n))"
  by (induction r arbitrary: i n) (auto simp: keys_ok_send split: pkey.split)

lemma net_reach_keys_ok: "net_reach n \<Longrightarrow> keys_ok n"
proof (induction rule: net_reach.induct)
  case (init n)
  then show ?case by (simp add: keys_ok_def list_all_iff)
next
  case (loaded n f s)
  then show ?case
    by (auto simp: iframe_loaded_def keys_ok_reject_loop split: option.split)
next
  case (removed n f s)
  then show ?case
    by (auto simp: iframe_removed_def Let_def keys_ok_upd_same
             intro!: keys_ok_reject_loop split: option.split)
qed (auto simp: request_def iframe_added_def setRouter_def delRouter_def
          intro: keys_ok_send keys_ok_deliver keys_ok_upd_same)

text \<open>Under that shape, the \<open>forEach\<close> of \<open>reject_loop\<close> stops with a \<open>TypeError\<close> at
  the first entry aimed at the \<open>iframe\<close>, and changes nothing before it.\<close>

lemma reject_loop_KData:
  assumes "list_all entry_ok (pending (frames n ! f))"
  shows "reject_loop why f c i r n =
           (if \<exists>j. i \<le> j \<and> j < i + r \<and> j < length (pending (frames n ! f)) \<and>
                   pe_target (pending (frames n ! f) ! j) = TIframe c
            then Inl n else Inr n)"
proof (induction r arbitrary: i)
  case (Suc r)
  let ?ps = "pending (frames n ! f)"
  show ?case
  proof (cases "i < length ?ps \<and> pe_target (?ps ! i) = TIframe c")
    case True
    then have "pe_key (?ps ! i) = KData" using assms by (auto simp: list_all_length entry_ok_def)
    then show ?thesis using True by auto
  next
    case False
    have "(\<exists>j. i \<le> j \<and> j < i + Suc r \<and> j < length ?ps \<and> pe_target (?ps ! j) = TIframe c) \<longleftrightarrow>
          (\<exists>j. Suc i \<le> j \<and> j < Suc i + r \<and> j < length ?ps \<and> pe_target (?ps ! j) = TIframe c)"
    proof
      assume "\<exists>j. i \<le> j \<and> j < i + Suc r \<and> j < length ?ps \<and> pe_target (?ps ! j) = TIframe c"
      then obtain j where j: "i \<le> j" "j < i + Suc r" "j < length ?ps" "pe_target (?ps ! j) = TIframe c" by blast
      then have "j \<noteq> i" using False by blast
      then show "\<exists>j. Suc i \<le> j \<and> j < Suc i + r \<and> j < length ?ps \<and> pe_target (?ps ! j) = TIframe c"
        using j by (intro exI [where x = j]) simp
    next
      assume "\<exists>j. Suc i \<le> j \<and> j < Suc i + r \<and> j < length ?ps \<and> pe_target (?ps ! j) = TIframe c"
      then obtain j where j: "Suc i \<le> j" "j < Suc i + r" "j < length ?ps" "pe_target (?ps ! j) = TIframe c" by blast
      then show "\<exists>j. i \<le> j \<and> j < i + Suc r \<and> j < length ?ps \<and> pe_target (?ps ! j) = TIframe c"
        by (intro exI [where x = j]) simp
    qed
    moreover have "reject_loop why f c i (Suc r) n = reject_loop why f c (Suc i) r n"
      by (simp only: reject_loop.simps(2) if_not_P [OF False])
    ultimately show ?thesis using Suc.IH [of "Suc i"] by (simp only:)
  qed
qed simp

section \<open>Properties of cross-frame messaging\<close>

text \<open>C29. Bounds and route: a request made with the default vector \<open>2147483647\<close> in a frame
  \<open>k\<close> levels below the top, with \<open>2k < 2147483647\<close>, keeps a positive vector at every frame
  it rises through and reaches the top with the path of the \<open>iframe\<close> selectors it came
  through, outermost first; the answer, its vector negated, keeps a negative vector at every
  frame it descends through, and at the \<open>j\<close>-th of them its path starts with the selector
  the request rose through at that level: the answer retraces the request's route and is
  handled at the origin, where the path is empty.\<close>

theorem answer_retraces_route:
  assumes "2 * int (length sels) < vector_max"
  shows "(\<forall>j \<le> length sels. 0 < vector (fold goUpstairs (take j sels) (mk_pack i ty d [] vector_max))) \<and>
         ppath (fold goUpstairs sels (mk_pack i ty d [] vector_max)) = rev sels \<and>
         (\<forall>j \<le> length sels.
            ppath ((goDownstairs ^^ j) ((fold goUpstairs sels (mk_pack i ty d [] vector_max))
                      \<lparr>ptype := ''#resolve'', vector := - vector (fold goUpstairs sels (mk_pack i ty d [] vector_max)),
                       pdata := v\<rparr>)) = drop j (rev sels) \<and>
            vector ((goDownstairs ^^ j) ((fold goUpstairs sels (mk_pack i ty d [] vector_max))
                      \<lparr>ptype := ''#resolve'', vector := - vector (fold goUpstairs sels (mk_pack i ty d [] vector_max)),
                       pdata := v\<rparr>)) < 0)"
proof (intro conjI allI impI)
  fix j assume "j \<le> length sels"
  then show "0 < vector (fold goUpstairs (take j sels) (mk_pack i ty d [] vector_max))"
    using assms fold_goUpstairs [of "take j sels"] by (simp add: mk_pack_def vector_max_def)
next
  show "ppath (fold goUpstairs sels (mk_pack i ty d [] vector_max)) = rev sels"
    using fold_goUpstairs [of sels] by (simp add: mk_pack_def)
next
  fix j assume j: "j \<le> length sels"
  let ?q = "(fold goUpstairs sels (mk_pack i ty d [] vector_max))
              \<lparr>ptype := ''#resolve'', vector := - vector (fold goUpstairs sels (mk_pack i ty d [] vector_max)),
               pdata := v\<rparr>"
  have q: "ppath ?q = rev sels" "vector ?q = int (length sels) - vector_max"
    using fold_goUpstairs [of sels] by (simp_all add: mk_pack_def)
  show "ppath ((goDownstairs ^^ j) ?q) = drop j (rev sels)"
    using goDownstairs_pow [of j ?q] q by simp
  show "vector ((goDownstairs ^^ j) ?q) < 0"
    using goDownstairs_pow [of j ?q] q j assms by simp
qed

theorem answer_retraces_route_witness:
  "ppath (fold goUpstairs [[''#g''], [''#f'']] (mk_pack 7 ''record'' PUndef [] vector_max)) = [[''#f''], [''#g'']] \<and>
   ppath ((goDownstairs ^^ 1) ((fold goUpstairs [[''#g''], [''#f'']] (mk_pack 7 ''record'' PUndef [] vector_max))
      \<lparr>ptype := ''#resolve'', vector := - vector (fold goUpstairs [[''#g''], [''#f'']] (mk_pack 7 ''record'' PUndef [] vector_max)),
       pdata := PData ''saved''\<rparr>)) = [[''#g'']]"
proof -
  have "2 * int (length [[''#g''], [''#f'']]) < vector_max" by (simp add: vector_max_def)
  from answer_retraces_route [OF this, of 7 "''record''" PUndef "PData ''saved''"]
  show ?thesis by simp
qed

text \<open>C30. One hop of the listener: a rising pack (vector above 1) that came from the
  \<open>iframe\<close> with selector \<open>s\<close> is forwarded to the parent with \<open>s\<close> prepended and the vector
  decreased; a falling pack (vector below -1) whose path continues with a selector of this
  frame's document is forwarded to that \<open>iframe\<close> with the first step dropped.\<close>

theorem listener_hop:
  assumes "verify p"
  shows "(1 < vector p \<longrightarrow> sel_of (frames n ! g) src = Some s \<longrightarrow> fparent (frames n ! g) = Some h \<longrightarrow>
            listener g src p n = post g h (TWindow h) KDataPack (goUpstairs s p) n) \<and>
         (vector p < -1 \<longrightarrow> ppath p = s0 # s' # rest \<longrightarrow> deepQuerySelector (frames n ! g) s' = Some c \<longrightarrow>
            listener g src p n = post g c (TIframe c) KData (goDownstairs p) n)"
  using assms
  by (auto simp: listener_def arrive_def postParentMessage_def postChildMessage_def)

theorem listener_hop_witness:
  "listener 1 2 (mk_pack 7 ''record'' PUndef [] vector_max) demo_tab =
     post 1 0 (TWindow 0) KDataPack (goUpstairs [''#g''] (mk_pack 7 ''record'' PUndef [] vector_max)) demo_tab"
proof -
  have "verify (mk_pack 7 ''record'' PUndef [] vector_max)" by (simp add: verify_def mk_pack_def)
  from listener_hop [OF this, of demo_tab 1 2 "[''#g'']" 0]
  show ?thesis by (simp add: demo_tab_def empty_frame_def sel_of_def mk_pack_def vector_max_def)
qed


text \<open>C31. Removing an \<open>iframe\<close> rejects nothing: in every network the code reaches,
  \<open>handleRemoveNodes\<close> posts no pack and settles or drops no pending entry of any frame;
  it ends with a \<open>TypeError\<close> exactly when the frame has a pending entry aimed at the removed
  \<open>iframe\<close>, since every such entry comes from \<open>postChildMessage\<close>, which stores the pack
  under \<open>data\<close> while the handler reads \<open>dataPack\<close>. A request inside the removed
  \<open>iframe\<close> is therefore never rejected.\<close>

theorem iframe_removal_rejects_nothing:
  assumes "net_reach n" and "f < length (frames n)"
  shows "inflight (after_callback (iframe_removed f s n)) = inflight n \<and>
         map pending (frames (after_callback (iframe_removed f s n))) = map pending (frames n) \<and>
         map settled (frames (after_callback (iframe_removed f s n))) = map settled (frames n) \<and>
         (isl (iframe_removed f s n) \<longleftrightarrow>
            (\<exists>c. deepQuerySelector (frames n ! f) s = Some c \<and>
                 (\<exists>e \<in> set (pending (frames n ! f)). pe_target e = TIframe c)))"
proof (cases "deepQuerySelector (frames n ! f) s")
  case None
  then show ?thesis by (simp add: iframe_removed_def after_callback_def)
next
  case (Some c)
  define n1 where "n1 = upd_frame f (\<lambda>fr. fr\<lparr>felems := filter (\<lambda>e. fst e \<noteq> s) (felems fr)\<rparr>) n"
  have p: "pending (frames n1 ! f) = pending (frames n ! f)" using assms(2) by (simp add: n1_def upd_frame_def)
  have ok: "list_all entry_ok (pending (frames n1 ! f))"
    using p keys_ok_nth [OF net_reach_keys_ok [OF assms(1)] assms(2)] by simp
  have r: "iframe_removed f s n = reject_loop PRemoved f c 0 (length (pending (frames n1 ! f))) n1"
    using Some by (simp add: iframe_removed_def n1_def Let_def)
  have st: "after_callback (iframe_removed f s n) = n1"
    unfolding r reject_loop_KData [OF ok] by simp
  have e: "isl (iframe_removed f s n) \<longleftrightarrow> (\<exists>e \<in> set (pending (frames n ! f)). pe_target e = TIframe c)"
    unfolding r reject_loop_KData [OF ok] p by (auto simp: in_set_conv_nth intro: bexI [OF _ nth_mem])
  show ?thesis using st e Some by (simp add: n1_def map_frames_upd_frame)
qed

theorem iframe_removal_rejects_nothing_witness:
  "net_reach (deliver_n 1 (request 0 8 ''execute'' (PData ''click'') [[''#f''], [''#g'']] (- vector_max) demo_tab)) \<and>
   isl (iframe_removed 1 [''#g''] (deliver_n 1 (request 0 8 ''execute'' (PData ''click'') [[''#f''], [''#g'']] (- vector_max) demo_tab))) \<and>
   inflight (after_callback (iframe_removed 1 [''#g''] (deliver_n 1 (request 0 8 ''execute'' (PData ''click'') [[''#f''], [''#g'']] (- vector_max) demo_tab))))
     = inflight (deliver_n 1 (request 0 8 ''execute'' (PData ''click'') [[''#f''], [''#g'']] (- vector_max) demo_tab))"
proof -
  let ?n = "deliver_n 1 (request 0 8 ''execute'' (PData ''click'') [[''#f''], [''#g'']] (- vector_max) demo_tab)"
  have r: "net_reach ?n"
    by (rule net_reach_deliver_n, rule net_reach.request, rule net_reach.init) (simp_all add: demo_tab_def empty_frame_def)
  have l: "1 < length (frames ?n)" by code_simp
  have d: "deepQuerySelector (frames ?n ! 1) [''#g''] = Some 2" by code_simp
  have x: "list_ex (\<lambda>e. pe_target e = TIframe 2) (pending (frames ?n ! 1))" by code_simp
  have "\<exists>c. deepQuerySelector (frames ?n ! 1) [''#g''] = Some c \<and> (\<exists>e \<in> set (pending (frames ?n ! 1)). pe_target e = TIframe c)"
    using d x by (auto simp: list_ex_iff)
  then show ?thesis using iframe_removal_rejects_nothing [OF r l, of "[''#g'']"] r by blast
qed

end
