(* ===== verification/Spec2Isabelle.thy ===== *)
theory Spec2Isabelle
  imports Runtime Tree Objects Host Registry Macros Frames
begin

text \<open>
  \<^bold>\<open>A verification development of bower-bird's block compiler.\<close>

  \<^bold>\<open>The program.\<close> bower-bird lets a user compose a script as a tree of typed blocks
  and compiles the tree into one resumable JavaScript program. Its core is
  \<open>src/src/classes/Block.ts\<close>: the block classes, their attribute schemas, the tree
  operations on a block (\<open>pushChild\<close>, \<open>unshiftChild\<close>, \<open>addBeforeBlock\<close>,
  \<open>addAfterBlock\<close>, \<open>unlink\<close>, \<open>destroy\<close>), and the compiler (\<open>toScript\<close> per class,
  \<open>packScript\<close>). \<open>src/src/classes/BlockType.ts\<close> is the registry from type tags to
  classes; \<open>src/src/classes/Script.ts\<close> wraps a compiled tree into a script;
  \<open>src/src/entries/page_script.js\<close> hosts the running program and persists its
  position. The compiled program is a \<open>while\<close> loop around a \<open>switch\<close> on the
  position \<open>stepList.join("-")\<close>: each block has a case keyed by its path of child
  indices; compound blocks push a nested component, the driver increments the last
  component after each case and pops it when no case matches.

  \<^bold>\<open>Theories.\<close>
  \<^item> \<open>Prelude\<close>: JavaScript values and the built-ins the compiler uses
    (\<open>Number.toString\<close> on integers, \<open>Array.join\<close>, writes to the last element).
  \<^item> \<open>Blocks\<close>: the block classes as the datatype \<open>kind\<close>, \<open>super_kind\<close>, each
    class's \<open>defaultAttr\<close>, its export slots, and \<open>parseScriptAttribute\<close>, with the
    errors it throws as values of \<open>error\<close>.
  \<^item> \<open>Bodies\<close>: \<open>toScript\<close> of every leaf class and the condition of every conditional
    class, as functions of a \<open>node\<close> (id, class, attributes, aliases, children).
  \<^item> \<open>Compiler\<close>: \<open>packScript\<close> with its overrides (\<open>RootBlock\<close>, \<open>IfBlock\<close>,
    \<open>ElseBlock\<close>, \<open>LoopBlock\<close>, \<open>MacroBlock\<close>, \<open>BreakBlock\<close>, \<open>ContinueBlock\<close>). A tree is
    a \<open>node\<close> with its children in sibling order; the ancestor chain the code walks through
    \<open>parent\<close> is a list of classes; the shared \<open>stepList\<close> array is threaded through and
    returned. The program is a list of fragments \<open>citem\<close>; \<open>render\<close> prints each as the
    source's template literal prints it. Lemmas: compilation fails exactly on a failing
    attribute read, the step positions each case gets, the shape of each compound case.
  \<^item> \<open>Runtime\<close>: the driver loop and the switch, with JavaScript's fall-through, over
    the state \<open>stepList\<close> (integers and \<open>Infinity\<close>), the macro flags and a trace of host
    events; \<open>register_execute\<close> is \<open>__RegisterExecute__\<close>. A run takes fuel (one unit per
    driver iteration, \<open>None\<close> when it runs out), because a script with a loop need not
    stop. Lemmas: string dispatch on the joined key is dispatch on the position, the
    compiled \<open>IfExistBlock\<close> condition; the properties of this theory are stated per case
    (\<open>exec_from\<close>), so no fuel bound enters them.
  \<^item> \<open>Tree\<close>: the object graph of \<open>Block\<close> instances as an arena (a list of \<open>bobj\<close>
    records indexed by block handle) with \<open>_parent\<close>, \<open>_beforeBlock\<close>, \<open>_afterBlock\<close>
    and the insertion-ordered keys of \<open>_children\<close>; end markers forward their getters to
    their owner and throw from their setters. The structural operations run in an
    exception monad that keeps the writes made before a throw. The invariant \<open>wf_tree\<close>
    says each parent's children form one doubly linked list whose order \<open>order\<close> (the
    \<open>firstChild\<close>/\<open>afterBlock\<close> walk, bounded by the arena size) lists exactly the keys.
    Lemmas: each operation refines a list operation on \<open>order\<close>, the invariant holds on
    every state reachable by well-aimed operations (\<open>tree_reach\<close>, rule induction), the
    error paths.
  \<^item> \<open>Objects\<close>: \<open>simplifyObject\<close> and \<open>complicateObject\<close> of
    \<open>src/src/modules/objects.ts\<close>, the encoding the script detail is stored in, over an
    explicit heap so that JavaScript identity is address equality. The worklist loop is a
    \<open>while_option\<close>, proved to stop by the measure \<open>2 * (unstored objects) + stack\<close>;
    the round trip is proved up to a renaming of addresses.
  \<^item> \<open>Host\<close>: the suspend/resume protocol between \<open>src/src/entries/page_script.js\<close>
    (the page's \<open>__LocalScript__\<close> table, \<open>archiveScripts\<close>, \<open>restoreScripts\<close>,
    \<open>restoreScript\<close>, \<open>__RegisterExecute__\<close>, \<open>__FinishExecute__\<close>) and
    \<open>src/src/entries/background.js\<close> (the \<open>Script.StateMap\<close> entries keyed by script id,
    the \<open>Script.*\<close> message handlers, \<open>tabs.onRemoved\<close>, \<open>focusScript\<close>). JavaScript
    objects with string keys are association lists (\<open>aupd\<close>, \<open>adel\<close> of the prelude);
    a host run is a sequence of events \<open>hevent\<close> folded by \<open>host_step\<close>. Lemmas: the state
    map stays well formed (\<open>host_inv\<close>) on every run, unload-then-show resumes every
    archived script at its archived position with its archived variables.
  \<^item> \<open>Registry\<close>: \<open>src/src/classes/BlockType.ts\<close> (the type map and its inverse) and
    the rehydration of a stored tree in \<open>Block.ts\<close>: \<open>getAttributeTypes\<close> (a
    \<open>function\<close> over the class chain, terminating by the depth \<open>kind_depth\<close>),
    \<open>build\<close> (type stamp, back-fill of defaults, \<open>data.enumOptions\<close>), the id table
    \<open>_idMap\<close> as a set of ids, \<open>registerRootBlock\<close> with its recursive \<open>toBlocks\<close>
    (mutual \<open>fun\<close> over the stored tree \<open>snode\<close> and its child lists), and
    \<open>destroy\<close> on the id table. The type map is read as the code reads it, as a property
    of a plain object, so a tag naming a member of \<open>Object.prototype\<close> finds that member
    (\<open>type_entry\<close>). Lemmas: build keeps and fills attributes and preserves attribute
    types, an unknown tag rehydrates as a plain \<open>Block\<close>, rehydration fails exactly at the
    first block tagged \<open>constructor\<close> or compound without its marker, registers exactly the
    block and marker ids, and hands the compiler blocks whose declared attributes are all
    defined.
  \<^item> \<open>Macros\<close>: macro recording and replay in \<open>background.js\<close>: \<open>RecordMacro\<close>
    (\<open>openRecordWindow\<close>, \<open>startRecord\<close>, the \<open>record\<close> route, \<open>stopRecord\<close>),
    \<open>ExecuteMacro\<close> (\<open>startExecute\<close> and its loop) and the \<open>Macro.*\<close> handlers, as a
    step function \<open>macro_step\<close> on the worker state \<open>bg\<close> and the inductive
    \<open>macro_reach\<close>. The browser keeps only what these classes acquire and release;
    what it answers (fresh ids, the clock, the active tab, each replayed event's outcome)
    are parameters of the events. Lemmas, by rule induction: recording resources are held
    exactly while a session is live, stored macros are (pause, event) pairs; the replay
    loop stops at the first failure.
  \<^item> \<open>Frames\<close>: cross-frame messaging of \<open>src/src/modules/messages.ts\<close>
    (\<open>IframeDataPack\<close>, \<open>IframeMessage\<close>), which carries recorded events from nested
    frames to the top frame and replayed events back down. The frames of a tab are a list
    indexed by window, each with its parent, its \<open>iframe\<close> elements by selector, its
    pending table and its router; \<open>window.postMessage\<close> is a FIFO queue, \<open>deliver\<close>
    runs the listener on the oldest pack. Pending entries record their target and the key
    their pack is stored under; the \<open>forEach\<close> of the \<open>iframe\<close> load and removal
    handlers is \<open>reject_loop\<close>, with the \<open>TypeError\<close> it can throw as an \<open>Inl\<close>. The
    reachable networks are the inductive \<open>net_reach\<close>. Lemmas: the vector bounds and the
    route an answer retraces (for depths up to \<open>2^30\<close>, since the vector starts at
    \<open>2147483647\<close> and changes by one per frame), one hop of the listener, and, by rule
    induction over \<open>net_reach\<close>, that every pending entry aimed at an \<open>iframe\<close> stores its
    pack under \<open>data\<close>, so that removing an \<open>iframe\<close> rejects nothing.
  \<^item> This theory: properties that span the compiler and the runtime.

  \<^bold>\<open>Findings.\<close> A trailing \<open>else\<close> case has no \<open>break\<close> and falls through into the
  next case; the condition of \<open>IfExistBlock\<close> with \<open>exist = false\<close> never holds (C6);
  \<open>x.addAfterBlock(marker)\<close> throws only after partial writes, leaving a tree that breaks
  the sibling invariant; \<open>tabs.onRemoved\<close> deletes the key \<open>"undefined"\<close> instead of the
  closed tab's states (C15); a restore without an archived position restarts at \<open>[2]\<close>
  (C16); \<open>build\<close> keeps only the last enum attribute's options (C17); a stored block with
  an unknown type tag becomes a plain \<open>Block\<close> instead of failing the rehydration (C19);
  a stored block tagged \<open>constructor\<close> is given \<open>Object.prototype\<close> and makes the whole
  rehydration throw (C20); \<open>destroy\<close> leaves the end marker's id in the id table (C22);
  \<open>stopRecord\<close> removes the window listener from the wrong event (C25); replaying a
  deleted macro locks its pool entry for good (C26); removing an \<open>iframe\<close> throws at the
  first request inside it and rejects none of them, so they never settle (C31).

  \<^bold>\<open>Not modelled.\<close> Rendering and the editor UI, descriptions (display text), the
  browser-API wrappers (\<open>chrome_api\<close>, \<open>http\<close>, and of \<open>messages\<close> the tab ports,
  \<open>Messages\<close> and \<open>DocumentMessages\<close>; the AES layer of \<open>IframeDataPack\<close>), the content, capture,
  inspector and popup entries; of \<open>background.js\<close> the offscreen document, the
  export/import windows, element capture, logging and the install handlers. \<open>flatChildren\<close> is not modelled; \<open>destroy\<close> is modelled
  on the id table in \<open>Registry\<close> (its \<open>unlink\<close> is \<open>Tree\<close>'s). \<open>genId\<close>'s
  \<open>uniqueId\<close> is a parameter (the fresh id); \<open>getAsyncData\<close> (a cache refreshed by a
  timer) and the JSON deep copy of \<open>setAttribute\<close> (the identity on the modelled values)
  are not modelled. Host code inside a case body is opaque: its run is an
  event of the trace, and a condition's value comes from an oracle.
  \<open>escapeStringValue\<close> (in \<open>modules/strings\<close>, outside the sources) is modelled from
  the spec: it escapes what a single-quoted literal needs.
\<close>

section \<open>An example tree\<close>

definition loop_node :: node where
  "loop_node = Node 5 LoopBlock [] [] [] [Node 6 Block [] [] [] [], Node 7 BreakBlock [] [] [] []]"

section \<open>Flow control in the compiled program\<close>

lemma splice_step_steps:
  "k < length (steps s) \<Longrightarrow>
   steps (splice_step k v s) = take (length (steps s) - k - 1) (steps s) @ [Num v]"
  by (auto simp: splice_step_def upd_last_def butlast_take)

text \<open>
  C1. Loop re-entry: a compiled loop at position \<open>p\<close> leaves the shared array as it
  found it, opens with its own case (which pushes the nested component \<open>0\<close>) and closes
  with a re-entry case at \<open>p\<close> extended by one past its children's positions; running
  that case resets the trailing component to \<open>0\<close>, so the driver's increment re-enters
  the loop body at its first child.
\<close>

theorem loop_repeat_case:
  assumes "packScript (Node i LoopBlock at al ag cs) p anc = Inr (items, q)"
  shows "q = p \<and> hd items = Case p [PushZero] []
    \<and> last items = LoopRepeat (p @ [1 + sum_list (map step_width cs)])
    \<and> steps (exec_from orc (last items # rest) s) = upd_last (\<lambda>_. Num 0) (steps s)"
  using packScript_Loop [OF assms] by (auto simp: LoopRepeat_step_def)

theorem loop_repeat_case_witness:
  "packScript loop_node [1] [RootBlock] =
     Inr ([Case [1] [PushZero] [], Case [1, 1] [Body 6 []] [], Space,
           Case [1, 2] [Splice 0 (-1)] [], LoopRepeat [1, 3]], [1])
   \<and> last [Case [1] [PushZero] [], Case [1, 1] [Body 6 []] [], Space,
           Case [1, 2] [Splice 0 (-1)] [], LoopRepeat [1, 3]] = LoopRepeat [1, 3]
   \<and> steps (exec_from (\<lambda>_ _. True) [LoopRepeat [1, 3]] (init_state [Num 1, Num 3]))
       = [Num 1, Num 0]"
proof -
  have h: "packScript loop_node [1] [RootBlock] =
     Inr ([Case [1] [PushZero] [], Case [1, 1] [Body 6 []] [], Space,
           Case [1, 2] [Splice 0 (-1)] [], LoopRepeat [1, 3]], [1])"
    by code_simp
  show ?thesis
    using loop_repeat_case [OF h [unfolded loop_node_def], of "\<lambda>_ _. True" "[]" "init_state [Num 1, Num 3]"] h
    by (simp add: init_state_def)
qed

text \<open>
  C2. Break and continue: inside a loop, with \<open>ifs\<close> the conditionals between the block
  and its nearest enclosing loop, \<open>BreakBlock\<close> compiles to a case that removes
  \<open>length ifs\<close> components of the live position and sets the new trailing one to
  \<open>-1\<close> (after the driver's increment, no case matches and the loop is left);
  \<open>ContinueBlock\<close> sets it to \<open>0\<close> (the increment re-enters the loop body).
\<close>

theorem break_continue_truncate:
  assumes "LoopBlock \<notin> set ifs" and "length ifs < length (steps s)"
  shows "packScript (Node i BreakBlock at al ag cs) p (ifs @ LoopBlock # rest) =
           Inr ([Case p [Splice (length ifs) (-1)] []], p)
    \<and> packScript (Node i ContinueBlock at al ag cs) p (ifs @ LoopBlock # rest) =
           Inr ([Case p [Splice (length ifs) 0] []], p)
    \<and> steps (exec_from orc [Case p [Splice (length ifs) v] []] s)
         = take (length (steps s) - length ifs - 1) (steps s) @ [Num v]"
proof -
  have l: "loop_layer (ifs @ LoopBlock # rest) = Some (length ifs)"
    using assms(1) by (rule loop_layer_prefix)
  show ?thesis
    unfolding packScript_Break packScript_Continue
    using l assms(2)
    by (simp add: BreakBlock_toScript_def ContinueBlock_toScript_def exec_stmts_def
        splice_step_steps)
qed

theorem break_continue_truncate_witness:
  "packScript (Node 9 BreakBlock [] [] [] []) [1, 2, 3] [IfStringBlock, IfNumberBlock, LoopBlock, RootBlock] =
     Inr ([Case [1, 2, 3] [Splice 2 (-1)] []], [1, 2, 3])
   \<and> packScript (Node 9 ContinueBlock [] [] [] []) [1, 2, 3] [IfStringBlock, IfNumberBlock, LoopBlock, RootBlock] =
     Inr ([Case [1, 2, 3] [Splice 2 0] []], [1, 2, 3])
   \<and> steps (exec_from (\<lambda>_ _. True) [Case [1, 2, 3] [Splice 2 (-1)] []] (init_state [Num 1, Num 2, Num 3, Num 4]))
       = [Num 1, Num (-1)]"
  using break_continue_truncate [of "[IfStringBlock, IfNumberBlock]" "init_state [Num 1, Num 2, Num 3, Num 4]"
      9 "[]" "[]" "[]" "[]" "[1, 2, 3]" "[RootBlock]" "\<lambda>_ _. True" "-1"]
  by (simp add: init_state_def numeral_2_eq_2)

text \<open>
  C3. Flow-control blocks out of place are inert: a break or continue block with no
  enclosing loop compiles to a case with an empty body, an else block that is not a
  direct child of a conditional compiles to nothing at all, and an empty case changes
  nothing when it runs.
\<close>

theorem inert_flow_blocks:
  "(LoopBlock \<notin> set anc \<longrightarrow>
      packScript (Node i BreakBlock at al ag cs) p anc = Inr ([Case p [] []], p)
    \<and> packScript (Node i ContinueBlock at al ag cs) p anc = Inr ([Case p [] []], p))
   \<and> ((anc = [] \<or> \<not> is_if (hd anc)) \<longrightarrow>
      packScript (Node i ElseBlock at al ag cs) p anc = Inr ([], p))
   \<and> exec_from orc (Case p [] [] # rest) s = s"
  unfolding packScript_Break packScript_Continue
  by (auto simp: BreakBlock_toScript_def
      ContinueBlock_toScript_def ElseBlock_packScript_def exec_stmts_def
      loop_layer_None_iff [symmetric] split: list.splits)

theorem inert_flow_blocks_witness:
  "LoopBlock \<notin> set [RootBlock] \<and> \<not> is_if (hd [RootBlock])
   \<and> packScript (Node 9 BreakBlock [] [] [] []) [2] [RootBlock] = Inr ([Case [2] [] []], [2])
   \<and> packScript (Node 9 ElseBlock [] [] [] []) [2] [RootBlock] = Inr ([], [2])"
  using inert_flow_blocks [of "[RootBlock]" 9 "[]" "[]" "[]" "[]" "[2]"] by simp

end
